theory Spec2Isabelle
  imports Main "HOL-Library.Stream" "HOL-Library.Product_Lexorder" "HOL-Library.Multiset"
begin

section \<open>Python values\<close>

text \<open>
  The server keeps its state in a JSON file and works on the values that
  \<^verbatim>\<open>json.load\<close> returns: \<^verbatim>\<open>None\<close>, booleans, unbounded integers, floats,
  strings, lists and dicts with string keys. The tool arguments are values of the same kind.

  A string is a list of code points below 256 (one \<^typ>\<open>char\<close> each). A dict is an association
  list in insertion order; a lookup takes the first entry of a key. A float is represented by
  what this program can observe of it: \<^verbatim>\<open>int(f)\<close>, \<^verbatim>\<open>bool(f)\<close> and \<^verbatim>\<open>str(f)\<close>.
  CPython's limit on the decimal conversion of integers of more than 4300 digits is not
  modelled.
\<close>

datatype pyfloat =
    Finite int bool string  \<comment> \<open>truncation toward zero, \<^verbatim>\<open>f != 0\<close>, \<^verbatim>\<open>repr(f)\<close>\<close>
  | NaN
  | Infinity bool           \<comment> \<open>\<^verbatim>\<open>True\<close> for \<^verbatim>\<open>-inf\<close>\<close>

datatype pyval =
    PNone
  | PBool bool
  | PInt int
  | PFloat pyfloat
  | PStr string
  | PList "pyval list"
  | PDict "(string \<times> pyval) list"

type_synonym dict = "(string \<times> pyval) list"

text \<open>
  The exceptions the server can raise. The three \<^verbatim>\<open>ValueError\<close>s that the tools raise
  themselves are kept apart by their message; \<open>TaskNotFound\<close> carries the \<^verbatim>\<open>task_id\<close>
  that its message prints. \<open>Unreachable\<close> marks the branches that the shape of the value
  returned by \<^verbatim>\<open>_load_db\<close> excludes (a missing key, \<^verbatim>\<open>tasks\<close> that is no list).
\<close>

datatype error =
    UnicodeDecodeError      \<comment> \<open>\<^verbatim>\<open>json.load\<close> on a file that is not UTF-8\<close>
  | AttributeError          \<comment> \<open>\<^verbatim>\<open>.get\<close> or \<^verbatim>\<open>.strip\<close> on a value that has no such method\<close>
  | IntTypeError            \<comment> \<open>\<^verbatim>\<open>int(None)\<close>, \<^verbatim>\<open>int([])\<close>, \<^verbatim>\<open>int({})\<close>\<close>
  | IntValueError           \<comment> \<open>\<^verbatim>\<open>int("abc")\<close>, \<^verbatim>\<open>int(nan)\<close>\<close>
  | IntOverflowError        \<comment> \<open>\<^verbatim>\<open>int(inf)\<close>\<close>
  | TitleEmpty              \<comment> \<open>\<^verbatim>\<open>ValueError("title must be a non-empty string")\<close>\<close>
  | TitleEmptyWhenProvided  \<comment> \<open>\<^verbatim>\<open>ValueError("title must be non-empty when provided")\<close>\<close>
  | TaskNotFound pyval      \<comment> \<open>\<^verbatim>\<open>ValueError(f"task_id {task_id} not found")\<close>\<close>
  | Unreachable

subsection \<open>Builtins\<close>

definition is_space :: "char \<Rightarrow> bool" where
  "is_space c = (of_char c \<in> {9, 10, 11, 12, 13, 28, 29, 30, 31, 32, 133, 160 :: nat})"

definition py_strip :: "string \<Rightarrow> string" where
  "py_strip s = rev (dropWhile is_space (rev (dropWhile is_space s)))"

fun py_bool :: "pyval \<Rightarrow> bool" where
  "py_bool PNone = False"
| "py_bool (PBool b) = b"
| "py_bool (PInt n) = (n \<noteq> 0)"
| "py_bool (PFloat (Finite n nz r)) = nz"
| "py_bool (PFloat NaN) = True"
| "py_bool (PFloat (Infinity neg)) = True"
| "py_bool (PStr s) = (s \<noteq> [])"
| "py_bool (PList xs) = (xs \<noteq> [])"
| "py_bool (PDict kvs) = (kvs \<noteq> [])"

definition is_digit :: "char \<Rightarrow> bool" where
  "is_digit c = (48 \<le> (of_char c :: nat) \<and> (of_char c :: nat) \<le> 57)"

definition underscore :: char where
  "underscore = CHR 0x5F"

text \<open>
  The digits of a decimal literal: digits, with single underscores allowed between two
  digits only.
\<close>

fun digits_ok :: "bool \<Rightarrow> string \<Rightarrow> bool" where
  "digits_ok after_digit [] = after_digit"
| "digits_ok after_digit (c # cs) =
     (if is_digit c then digits_ok True cs
      else if c = underscore \<and> after_digit then cs \<noteq> [] \<and> is_digit (hd cs) \<and> digits_ok False cs
      else False)"

definition digits_value :: "string \<Rightarrow> int" where
  "digits_value cs =
     foldl (\<lambda>acc c. 10 * acc + (int (of_char c) - 48)) 0 (filter is_digit cs)"

definition int_of_str :: "string \<Rightarrow> error + int" where
  "int_of_str s =
     (let t = py_strip s;
          neg = (t \<noteq> [] \<and> hd t = CHR ''-'');
          body = (if t \<noteq> [] \<and> (hd t = CHR ''-'' \<or> hd t = CHR ''+'') then tl t else t)
      in if digits_ok False body
         then Inr (if neg then - digits_value body else digits_value body)
         else Inl IntValueError)"

fun py_int :: "pyval \<Rightarrow> error + int" where
  "py_int PNone = Inl IntTypeError"
| "py_int (PBool b) = Inr (if b then 1 else 0)"
| "py_int (PInt n) = Inr n"
| "py_int (PFloat (Finite n nz r)) = Inr n"
| "py_int (PFloat NaN) = Inl IntValueError"
| "py_int (PFloat (Infinity neg)) = Inl IntOverflowError"
| "py_int (PStr s) = int_of_str s"
| "py_int (PList xs) = Inl IntTypeError"
| "py_int (PDict kvs) = Inl IntTypeError"

subsection \<open>\<^verbatim>\<open>str\<close> and \<^verbatim>\<open>repr\<close>\<close>

definition digit_char :: "nat \<Rightarrow> char" where
  "digit_char d = char_of (48 + d)"

fun decimal :: "nat \<Rightarrow> string" where
  "decimal n = (if n < 10 then [digit_char n] else decimal (n div 10) @ [digit_char (n mod 10)])"

definition str_of_int :: "int \<Rightarrow> string" where
  "str_of_int i = (if i < 0 then CHR ''-'' # decimal (nat (- i)) else decimal (nat i))"

definition hex_char :: "nat \<Rightarrow> char" where
  "hex_char d = (if d < 10 then char_of (48 + d) else char_of (87 + d))"

definition backslash :: char where
  "backslash = CHR 0x5C"

definition squote :: char where
  "squote = CHR 0x27"

definition dquote :: char where
  "dquote = CHR 0x22"

definition printable :: "char \<Rightarrow> bool" where
  "printable c = (let n = (of_char c :: nat) in (32 \<le> n \<and> n < 127) \<or> (161 \<le> n \<and> n \<noteq> 173))"

definition repr_char :: "char \<Rightarrow> char \<Rightarrow> string" where
  "repr_char quote c =
     (if c = quote \<or> c = backslash then [backslash, c]
      else if c = CHR 0x09 then [backslash, CHR ''t'']
      else if c = CHR 0x0A then [backslash, CHR ''n'']
      else if c = CHR 0x0D then [backslash, CHR ''r'']
      else if printable c then [c]
      else [backslash, CHR ''x'', hex_char (of_char c div 16), hex_char (of_char c mod 16)])"

definition repr_str :: "string \<Rightarrow> string" where
  "repr_str s =
     (let quote = (if squote \<in> set s \<and> dquote \<notin> set s then dquote else squote)
      in quote # concat (map (repr_char quote) s) @ [quote])"

fun join :: "string \<Rightarrow> string list \<Rightarrow> string" where
  "join sep [] = []"
| "join sep [x] = x"
| "join sep (x # y # ys) = x @ sep @ join sep (y # ys)"

fun repr_float :: "pyfloat \<Rightarrow> string" where
  "repr_float (Finite n nz r) = r"
| "repr_float NaN = ''nan''"
| "repr_float (Infinity neg) = (if neg then ''-inf'' else ''inf'')"

fun py_repr :: "pyval \<Rightarrow> string" where
  "py_repr PNone = ''None''"
| "py_repr (PBool b) = (if b then ''True'' else ''False'')"
| "py_repr (PInt n) = str_of_int n"
| "py_repr (PFloat f) = repr_float f"
| "py_repr (PStr s) = repr_str s"
| "py_repr (PList xs) = ''['' @ join '', '' (map py_repr xs) @ '']''"
| "py_repr (PDict kvs) =
     ''{'' @ join '', '' (map (\<lambda>kv. repr_str (fst kv) @ '': '' @ py_repr (snd kv)) kvs) @ ''}''"

definition py_str :: "pyval \<Rightarrow> string" where
  "py_str v = (case v of PStr s \<Rightarrow> s | _ \<Rightarrow> py_repr v)"

subsection \<open>Dicts\<close>

text \<open>\<^verbatim>\<open>d[k] = v\<close>: an existing key keeps its place, a new one goes to the end.\<close>

fun dict_set :: "dict \<Rightarrow> string \<Rightarrow> pyval \<Rightarrow> dict" where
  "dict_set [] k v = [(k, v)]"
| "dict_set ((k', v') # kvs) k v =
     (if k' = k then (k, v) # kvs else (k', v') # dict_set kvs k v)"

text \<open>\<^verbatim>\<open>d.get(k, default)\<close> on a dict, and on any value: only a dict has the method.\<close>

definition dict_get :: "dict \<Rightarrow> string \<Rightarrow> pyval \<Rightarrow> pyval" where
  "dict_get kvs k dflt = (case map_of kvs k of Some v \<Rightarrow> v | None \<Rightarrow> dflt)"

definition py_get :: "pyval \<Rightarrow> string \<Rightarrow> pyval \<Rightarrow> error + pyval" where
  "py_get t k dflt =
     (case t of PDict kvs \<Rightarrow> Inr (dict_get kvs k dflt) | _ \<Rightarrow> Inl AttributeError)"

section \<open>The record store\<close>

text \<open>
  What \<^verbatim>\<open>_load_db\<close> finds at \<^verbatim>\<open>DB_PATH\<close>: no file, a file that \<^verbatim>\<open>json.load\<close> cannot
  decode as UTF-8 (it raises \<^verbatim>\<open>UnicodeDecodeError\<close>, which is no \<^verbatim>\<open>JSONDecodeError\<close>), a
  text that is no JSON (\<^verbatim>\<open>JSONDecodeError\<close>), or the value that \<^verbatim>\<open>json.load\<close> returns.
\<close>

datatype medium = Absent | Undecodable | Malformed | Content pyval

definition default_db :: dict where
  "default_db = [(''next_id'', PInt 1), (''tasks'', PList [])]"

text \<open>\<^verbatim>\<open>isinstance(v, int)\<close> holds of integers and of booleans; \<open>int_value\<close> is their value.\<close>

fun is_int :: "pyval \<Rightarrow> bool" where
  "is_int (PInt n) = True"
| "is_int (PBool b) = True"
| "is_int v = False"

fun int_value :: "pyval \<Rightarrow> int" where
  "int_value (PInt n) = n"
| "int_value (PBool b) = (if b then 1 else 0)"
| "int_value v = 0"

fun is_list :: "pyval \<Rightarrow> bool" where
  "is_list (PList xs) = True"
| "is_list v = False"

text \<open>
  The shape validation of \<^verbatim>\<open>_load_db\<close> on a dict: both top-level keys must be there;
  \<^verbatim>\<open>tasks\<close> that is no list becomes the empty list, \<^verbatim>\<open>next_id\<close> that is no \<^verbatim>\<open>int\<close> or is
  below 1 becomes 1.
\<close>

definition validate_db :: "dict \<Rightarrow> dict" where
  "validate_db data =
     (case (map_of data ''next_id'', map_of data ''tasks'') of
        (Some n, Some ts) \<Rightarrow>
          (let data1 = (if \<not> is_list ts then dict_set data ''tasks'' (PList []) else data)
           in if \<not> is_int n \<or> int_value n < 1
              then dict_set data1 ''next_id'' (PInt 1) else data1)
      | _ \<Rightarrow> default_db)"

fun load_db :: "medium \<Rightarrow> error + dict" where
  "load_db Absent = Inr default_db"
| "load_db Undecodable = Inl UnicodeDecodeError"
| "load_db Malformed = Inr default_db"
| "load_db (Content (PDict data)) = Inr (validate_db data)"
| "load_db (Content v) = Inr default_db"

text \<open>
  The files and the clock. \<open>medium\<close> is the file at \<^verbatim>\<open>DB_PATH\<close>, \<open>tmp\<close> its sibling
  \<^verbatim>\<open>DB_PATH + ".tmp"\<close>, \<open>saves\<close> counts the completed calls of \<^verbatim>\<open>_save_db\<close>, and \<open>clock\<close> holds
  the readings that the coming calls of \<^verbatim>\<open>datetime.utcnow().replace(microsecond=0).isoformat()\<close>
  return, one for each call. Every tool runs under the one lock, so an invocation is one step.
\<close>

record world =
  medium :: medium
  tmp :: medium
  saves :: nat
  clock :: "string stream"

definition now_iso :: "string stream \<Rightarrow> string \<times> string stream" where
  "now_iso c = (shd c @ ''Z'', stl c)"

text \<open>
  \<^verbatim>\<open>_save_db\<close> writes the temporary file, then moves it over the canonical one. What
  \<^verbatim>\<open>json.dump\<close> writes, \<^verbatim>\<open>json.load\<close> reads back as the same value.
\<close>

definition save_db :: "world \<Rightarrow> dict \<Rightarrow> world" where
  "save_db w data =
     (let w1 = w\<lparr>tmp := Content (PDict data)\<rparr>
      in w1\<lparr>medium := tmp w1, tmp := Absent, saves := saves w1 + 1\<rparr>)"

section \<open>Tasks\<close>

record Task =
  id_field :: pyval
  title :: string
  due_date :: pyval
  completed :: bool
  created_at :: string
  completed_at :: pyval

text \<open>
  \<^verbatim>\<open>_task_from_dict\<close>. The arguments of the constructor are evaluated in order, so a
  record without a usable \<^verbatim>\<open>id\<close> raises before the clock is read; the clock is read only
  when \<^verbatim>\<open>str(d.get("created_at", ""))\<close> is empty.
\<close>

definition task_from_dict :: "pyval \<Rightarrow> string stream \<Rightarrow> (error + Task) \<times> string stream" where
  "task_from_dict d c =
     (case d of
        PDict kvs \<Rightarrow>
          (case py_int (dict_get kvs ''id'' PNone) of
             Inl e \<Rightarrow> (Inl e, c)
           | Inr n \<Rightarrow>
               (let s = py_str (dict_get kvs ''created_at'' (PStr []));
                    (created, c1) = (if s \<noteq> [] then (s, c) else now_iso c)
                in (Inr \<lparr>id_field = PInt n,
                          title = py_str (dict_get kvs ''title'' (PStr [])),
                          due_date = dict_get kvs ''due_date'' PNone,
                          completed = py_bool (dict_get kvs ''completed'' (PBool False)),
                          created_at = created,
                          completed_at = dict_get kvs ''completed_at'' PNone\<rparr>, c1)))
      | _ \<Rightarrow> (Inl AttributeError, c))"

text \<open>\<^verbatim>\<open>_serialize_task\<close>: \<^verbatim>\<open>asdict\<close> lists the fields in the order of their declaration.\<close>

definition serialize_task :: "Task \<Rightarrow> pyval" where
  "serialize_task t =
     PDict [(''id'', id_field t), (''title'', PStr (title t)), (''due_date'', due_date t),
            (''completed'', PBool (completed t)), (''created_at'', PStr (created_at t)),
            (''completed_at'', completed_at t)]"

section \<open>The tools\<close>

text \<open>\<^verbatim>\<open>db["tasks"]\<close> where a list is iterated: always a list after \<^verbatim>\<open>_load_db\<close>.\<close>

definition db_tasks :: "dict \<Rightarrow> error + pyval list" where
  "db_tasks db = (case map_of db ''tasks'' of Some (PList ts) \<Rightarrow> Inr ts | _ \<Rightarrow> Inl Unreachable)"

text \<open>\<^verbatim>\<open>int(t.get("id"))\<close>, the id of a stored record as the tools read it.\<close>

definition stored_id :: "pyval \<Rightarrow> error + int" where
  "stored_id t = (case py_get t ''id'' PNone of Inl e \<Rightarrow> Inl e | Inr v \<Rightarrow> py_int v)"

subsection \<open>\<^verbatim>\<open>add_task\<close>\<close>

text \<open>
  \<^verbatim>\<open>(title or "").strip()\<close>: a falsy title counts as empty, a string is stripped, and any
  other value has no \<^verbatim>\<open>strip\<close>.
\<close>

definition add_title :: "pyval \<Rightarrow> error + string" where
  "add_title t =
     (if \<not> py_bool t then Inr (py_strip [])
      else case t of PStr s \<Rightarrow> Inr (py_strip s) | _ \<Rightarrow> Inl AttributeError)"

text \<open>\<^verbatim>\<open>due_date.strip() if isinstance(due_date, str) and due_date.strip() else None\<close>\<close>

definition add_due_date :: "pyval \<Rightarrow> pyval" where
  "add_due_date d =
     (case d of PStr s \<Rightarrow> if py_strip s \<noteq> [] then PStr (py_strip s) else PNone | _ \<Rightarrow> PNone)"

definition add_task :: "world \<Rightarrow> pyval \<Rightarrow> pyval \<Rightarrow> (error + pyval) \<times> world" where
  "add_task w title_arg due_date_arg =
     (case add_title title_arg of
        Inl e \<Rightarrow> (Inl e, w)
      | Inr ttl \<Rightarrow>
     if ttl = [] then (Inl TitleEmpty, w)
     else
     (case load_db (medium w) of
        Inl e \<Rightarrow> (Inl e, w)
      | Inr db \<Rightarrow>
     (case map_of db ''next_id'' of
        None \<Rightarrow> (Inl Unreachable, w)
      | Some task_id \<Rightarrow>
     if \<not> is_int task_id then (Inl Unreachable, w)
     else
     (let db1 = dict_set db ''next_id'' (PInt (int_value task_id + 1));
          dd = add_due_date due_date_arg;
          (now, c1) = now_iso (clock w);
          task = \<lparr>id_field = task_id, title = ttl, due_date = dd, completed = False,
                  created_at = now, completed_at = PNone\<rparr>
      in case db_tasks db1 of
           Inl e \<Rightarrow> (Inl e, w\<lparr>clock := c1\<rparr>)
         | Inr ts \<Rightarrow>
             (Inr (serialize_task task),
              save_db (w\<lparr>clock := c1\<rparr>)
                (dict_set db1 ''tasks'' (PList (ts @ [serialize_task task]))))))))"

subsection \<open>\<^verbatim>\<open>list_tasks\<close>\<close>

text \<open>
  The comprehension
  \<^verbatim>\<open>[_task_from_dict(t) for t in db["tasks"] if bool(t.get("completed", False)) == is_completed]\<close>.
\<close>

fun list_comp :: "bool \<Rightarrow> pyval list \<Rightarrow> string stream \<Rightarrow> (error + Task list) \<times> string stream" where
  "list_comp b [] c = (Inr [], c)"
| "list_comp b (t # ts) c =
     (case py_get t ''completed'' (PBool False) of
        Inl e \<Rightarrow> (Inl e, c)
      | Inr v \<Rightarrow>
          if py_bool v = b then
            (case task_from_dict t c of
               (Inl e, c1) \<Rightarrow> (Inl e, c1)
             | (Inr task, c1) \<Rightarrow>
                 (case list_comp b ts c1 of
                    (Inl e, c2) \<Rightarrow> (Inl e, c2)
                  | (Inr rest, c2) \<Rightarrow> (Inr (task # rest), c2)))
          else list_comp b ts c)"

text \<open>
  The key of \<^verbatim>\<open>tasks.sort(key=lambda t: (t.completed, t.id))\<close>: tuples compare
  lexicographically, \<^verbatim>\<open>False\<close> before \<^verbatim>\<open>True\<close>, and the sort is stable.
\<close>

definition sort_key_of :: "Task \<Rightarrow> bool \<times> int" where
  "sort_key_of t = (completed t, int_value (id_field t))"

definition list_tasks :: "world \<Rightarrow> bool \<Rightarrow> (error + pyval) \<times> world" where
  "list_tasks w is_completed =
     (case load_db (medium w) of
        Inl e \<Rightarrow> (Inl e, w)
      | Inr db \<Rightarrow>
     (case db_tasks db of
        Inl e \<Rightarrow> (Inl e, w)
      | Inr ts \<Rightarrow>
     (case list_comp is_completed ts (clock w) of
        (Inl e, c1) \<Rightarrow> (Inl e, w\<lparr>clock := c1\<rparr>)
      | (Inr tasks, c1) \<Rightarrow>
          (Inr (PList (map serialize_task (sort_key sort_key_of tasks))), w\<lparr>clock := c1\<rparr>))))"

subsection \<open>\<^verbatim>\<open>complete_task\<close> and \<^verbatim>\<open>update_task\<close>\<close>

text \<open>
  Both tools walk \<^verbatim>\<open>enumerate(db["tasks"])\<close> to the first record with
  \<^verbatim>\<open>int(t.get("id")) == int(task_id)\<close>, run their body on it and \<^verbatim>\<open>break\<close>. \<open>locate\<close> is that
  walk from index \<open>i\<close> on: the index and the record of the first match, \<open>None\<close> when the loop
  runs to its end, or the exception of the first coercion that fails (the stored id is
  coerced before the argument, at every record).
\<close>

fun locate :: "pyval list \<Rightarrow> pyval \<Rightarrow> nat \<Rightarrow> error + (nat \<times> pyval) option" where
  "locate [] task_id i = Inr None"
| "locate (t # ts) task_id i =
     (case stored_id t of
        Inl e \<Rightarrow> Inl e
      | Inr stored \<Rightarrow>
     (case py_int task_id of
        Inl e \<Rightarrow> Inl e
      | Inr wanted \<Rightarrow>
          if stored = wanted then Inr (Some (i, t)) else locate ts task_id (Suc i)))"

definition complete_task :: "world \<Rightarrow> pyval \<Rightarrow> (error + pyval) \<times> world" where
  "complete_task w task_id =
     (case load_db (medium w) of
        Inl e \<Rightarrow> (Inl e, w)
      | Inr db \<Rightarrow>
     (case db_tasks db of
        Inl e \<Rightarrow> (Inl e, w)
      | Inr ts \<Rightarrow>
     (case locate ts task_id 0 of
        Inl e \<Rightarrow> (Inl e, w)
      | Inr None \<Rightarrow> (Inl (TaskNotFound task_id), w)
      | Inr (Some (i, t)) \<Rightarrow>
     (case task_from_dict t (clock w) of
        (Inl e, c1) \<Rightarrow> (Inl e, w\<lparr>clock := c1\<rparr>)
      | (Inr task, c1) \<Rightarrow>
          if completed task then (Inr (serialize_task task), w\<lparr>clock := c1\<rparr>)
          else
            (let (now, c2) = now_iso c1;
                 task1 = task\<lparr>completed := True, completed_at := PStr now\<rparr>;
                 db1 = dict_set db ''tasks'' (PList (ts[i := serialize_task task1]))
             in (Inr (serialize_task task1), save_db (w\<lparr>clock := c2\<rparr>) db1))))))"

text \<open>
  \<^verbatim>\<open>if title is not None: new_title = title.strip(); ...\<close>: the new title, given the old one.
\<close>

definition update_title :: "pyval \<Rightarrow> string \<Rightarrow> error + string" where
  "update_title title_arg old =
     (case title_arg of
        PNone \<Rightarrow> Inr old
      | PStr s \<Rightarrow> if py_strip s = [] then Inl TitleEmptyWhenProvided else Inr (py_strip s)
      | _ \<Rightarrow> Inl AttributeError)"

text \<open>
  \<^verbatim>\<open>if due_date is not None: dd = due_date.strip() if isinstance(due_date, str) else None;
  task.due_date = dd if dd else None\<close>
\<close>

definition update_due_date :: "pyval \<Rightarrow> pyval \<Rightarrow> pyval" where
  "update_due_date due_date_arg old =
     (case due_date_arg of
        PNone \<Rightarrow> old
      | PStr s \<Rightarrow> if py_strip s \<noteq> [] then PStr (py_strip s) else PNone
      | _ \<Rightarrow> PNone)"

definition update_task :: "world \<Rightarrow> pyval \<Rightarrow> pyval \<Rightarrow> pyval \<Rightarrow> (error + pyval) \<times> world" where
  "update_task w task_id title_arg due_date_arg =
     (case load_db (medium w) of
        Inl e \<Rightarrow> (Inl e, w)
      | Inr db \<Rightarrow>
     (case db_tasks db of
        Inl e \<Rightarrow> (Inl e, w)
      | Inr ts \<Rightarrow>
     (case locate ts task_id 0 of
        Inl e \<Rightarrow> (Inl e, w)
      | Inr None \<Rightarrow> (Inl (TaskNotFound task_id), w)
      | Inr (Some (i, t)) \<Rightarrow>
     (case task_from_dict t (clock w) of
        (Inl e, c1) \<Rightarrow> (Inl e, w\<lparr>clock := c1\<rparr>)
      | (Inr task, c1) \<Rightarrow>
     (case update_title title_arg (title task) of
        Inl e \<Rightarrow> (Inl e, w\<lparr>clock := c1\<rparr>)
      | Inr new_title \<Rightarrow>
          (let task1 = task\<lparr>title := new_title,
                             due_date := update_due_date due_date_arg (due_date task)\<rparr>;
               db1 = dict_set db ''tasks'' (PList (ts[i := serialize_task task1]))
           in (Inr (serialize_task task1), save_db (w\<lparr>clock := c1\<rparr>) db1)))))))"

subsection \<open>\<^verbatim>\<open>delete_task\<close>\<close>

text \<open>The comprehension \<^verbatim>\<open>[t for t in db["tasks"] if int(t.get("id")) != int(task_id)]\<close>.\<close>

fun delete_comp :: "pyval list \<Rightarrow> pyval \<Rightarrow> error + pyval list" where
  "delete_comp [] task_id = Inr []"
| "delete_comp (t # ts) task_id =
     (case stored_id t of
        Inl e \<Rightarrow> Inl e
      | Inr stored \<Rightarrow>
     (case py_int task_id of
        Inl e \<Rightarrow> Inl e
      | Inr wanted \<Rightarrow>
     (case delete_comp ts task_id of
        Inl e \<Rightarrow> Inl e
      | Inr rest \<Rightarrow> Inr (if stored \<noteq> wanted then t # rest else rest))))"

definition delete_task :: "world \<Rightarrow> pyval \<Rightarrow> (error + pyval) \<times> world" where
  "delete_task w task_id =
     (case load_db (medium w) of
        Inl e \<Rightarrow> (Inl e, w)
      | Inr db \<Rightarrow>
     (case db_tasks db of
        Inl e \<Rightarrow> (Inl e, w)
      | Inr ts \<Rightarrow>
     (case delete_comp ts task_id of
        Inl e \<Rightarrow> (Inl e, w)
      | Inr kept \<Rightarrow>
          if length kept = length ts then (Inl (TaskNotFound task_id), w)
          else
            (let w1 = save_db w (dict_set db ''tasks'' (PList kept))
             in case py_int task_id of
                  Inl e \<Rightarrow> (Inl e, w1)
                | Inr n \<Rightarrow> (Inr (PDict [(''deleted'', PBool True), (''task_id'', PInt n)]), w1)))))"

subsection \<open>\<^verbatim>\<open>clear_completed\<close>\<close>

text \<open>The comprehension \<^verbatim>\<open>[t for t in db["tasks"] if not bool(t.get("completed", False))]\<close>.\<close>

fun clear_comp :: "pyval list \<Rightarrow> error + pyval list" where
  "clear_comp [] = Inr []"
| "clear_comp (t # ts) =
     (case py_get t ''completed'' (PBool False) of
        Inl e \<Rightarrow> Inl e
      | Inr v \<Rightarrow>
     (case clear_comp ts of
        Inl e \<Rightarrow> Inl e
      | Inr rest \<Rightarrow> Inr (if \<not> py_bool v then t # rest else rest)))"

definition clear_completed :: "world \<Rightarrow> (error + pyval) \<times> world" where
  "clear_completed w =
     (case load_db (medium w) of
        Inl e \<Rightarrow> (Inl e, w)
      | Inr db \<Rightarrow>
     (case db_tasks db of
        Inl e \<Rightarrow> (Inl e, w)
      | Inr ts \<Rightarrow>
     (case clear_comp ts of
        Inl e \<Rightarrow> (Inl e, w)
      | Inr kept \<Rightarrow>
          (Inr (PDict [(''cleared'', PInt (int (length ts) - int (length kept)))]),
           save_db w (dict_set db ''tasks'' (PList kept))))))"

subsection \<open>Invocations\<close>

datatype call =
    AddTask pyval pyval
  | ListTasks bool
  | CompleteTask pyval
  | DeleteTask pyval
  | UpdateTask pyval pyval pyval
  | ClearCompleted

fun invoke :: "call \<Rightarrow> world \<Rightarrow> (error + pyval) \<times> world" where
  "invoke (AddTask t d) w = add_task w t d"
| "invoke (ListTasks b) w = list_tasks w b"
| "invoke (CompleteTask i) w = complete_task w i"
| "invoke (DeleteTask i) w = delete_task w i"
| "invoke (UpdateTask i t d) w = update_task w i t d"
| "invoke ClearCompleted w = clear_completed w"

text \<open>A sequence of invocations, each on the world the one before left; the results in order.\<close>

fun invoke_all :: "call list \<Rightarrow> world \<Rightarrow> (error + pyval) list \<times> world" where
  "invoke_all [] w = ([], w)"
| "invoke_all (c # cs) w =
     (let (r, w1) = invoke c w; (rs, w2) = invoke_all cs w1 in (r # rs, w2))"

section \<open>Notions used in the statements\<close>

text \<open>A world with the given file, no temporary file, no save yet, and a clock that stands still.\<close>

definition world_of :: "medium \<Rightarrow> world" where
  "world_of m = \<lparr>medium = m, tmp = Absent, saves = 0, clock = sconst ''2026-01-15T14:30:00''\<rparr>"

text \<open>The shape that \<^verbatim>\<open>_load_db\<close> establishes, and that every saved document has.\<close>

definition valid_db :: "dict \<Rightarrow> bool" where
  "valid_db db =
     (case (map_of db ''next_id'', map_of db ''tasks'') of
        (Some n, Some ts) \<Rightarrow> is_int n \<and> 1 \<le> int_value n \<and> is_list ts
      | _ \<Rightarrow> False)"




text \<open>
  The record at index \<open>k\<close> is the first one whose stored id coerces to \<open>n\<close>, and the ids of
  the records before it coerce to other integers.
\<close>

definition first_with_id :: "pyval list \<Rightarrow> int \<Rightarrow> nat \<Rightarrow> bool" where
  "first_with_id ts n k =
     (k < length ts \<and> stored_id (ts ! k) = Inr n \<and>
      (\<forall>j<k. \<exists>m. stored_id (ts ! j) = Inr m \<and> m \<noteq> n))"

text \<open>A stored task record and a document, for examples.\<close>

definition task_record :: "int \<Rightarrow> string \<Rightarrow> bool \<Rightarrow> pyval \<Rightarrow> pyval" where
  "task_record n ttl done done_at =
     PDict [(''id'', PInt n), (''title'', PStr ttl), (''due_date'', PNone),
            (''completed'', PBool done), (''created_at'', PStr ''2026-01-01T00:00:00Z''),
            (''completed_at'', done_at)]"

definition document :: "int \<Rightarrow> pyval list \<Rightarrow> pyval" where
  "document n ts = PDict [(''next_id'', PInt n), (''tasks'', PList ts)]"

text \<open>The tools that save whenever they succeed, whether or not the document changed.\<close>

fun always_saves :: "call \<Rightarrow> bool" where
  "always_saves (UpdateTask i t d) = True"
| "always_saves ClearCompleted = True"
| "always_saves c = False"

text \<open>\<^verbatim>\<open>bool(t.get("completed", False))\<close>, the completion flag of a stored record.\<close>

definition stored_completed :: "pyval \<Rightarrow> bool" where
  "stored_completed t =
     (case t of PDict kvs \<Rightarrow> py_bool (dict_get kvs ''completed'' (PBool False)) | _ \<Rightarrow> False)"

text \<open>
  A task is the view of a stored record: the fields of the record, coerced as
  \<^verbatim>\<open>_task_from_dict\<close> coerces them, with the defaults for the missing ones, and a
  \<^verbatim>\<open>created_at\<close> that is the stored one unless that is missing or empty.
\<close>

definition is_view :: "pyval \<Rightarrow> Task \<Rightarrow> bool" where
  "is_view t x =
     (case t of
        PDict kvs \<Rightarrow>
          py_int (dict_get kvs ''id'' PNone) = Inr (int_value (id_field x)) \<and>
          id_field x = PInt (int_value (id_field x)) \<and>
          title x = py_str (dict_get kvs ''title'' (PStr [])) \<and>
          due_date x = dict_get kvs ''due_date'' PNone \<and>
          completed x = py_bool (dict_get kvs ''completed'' (PBool False)) \<and>
          completed_at x = dict_get kvs ''completed_at'' PNone \<and>
          created_at x \<noteq> [] \<and>
          (py_str (dict_get kvs ''created_at'' (PStr [])) \<noteq> [] \<longrightarrow>
             created_at x = py_str (dict_get kvs ''created_at'' (PStr [])))
      | _ \<Rightarrow> False)"

text \<open>
  \<^verbatim>\<open>completed_at\<close> is non-null if and only if \<^verbatim>\<open>completed\<close> is true, for a stored record or a
  returned task (both dicts), for all the records of the document that a load of the file
  gives, and for the result of a tool (a task, a list of tasks, or a dict that is no task).
\<close>

definition record_ok :: "pyval \<Rightarrow> bool" where
  "record_ok t =
     (case t of
        PDict kvs \<Rightarrow>
          py_bool (dict_get kvs ''completed'' (PBool False)) =
            (dict_get kvs ''completed_at'' PNone \<noteq> PNone)
      | _ \<Rightarrow> True)"

definition doc_ok :: "medium \<Rightarrow> bool" where
  "doc_ok m =
     (case load_db m of
        Inr db \<Rightarrow> (case db_tasks db of Inr ts \<Rightarrow> list_all record_ok ts | Inl e \<Rightarrow> True)
      | Inl e \<Rightarrow> True)"

definition result_ok :: "pyval \<Rightarrow> bool" where
  "result_ok r = (case r of PList rs \<Rightarrow> list_all record_ok rs | _ \<Rightarrow> record_ok r)"

section \<open>Properties of the record store\<close>

lemma map_of_dict_set: "map_of (dict_set d k v) k' = (if k' = k then Some v else map_of d k')"
  by (induction d) auto

lemma validate_db_shape:
  "\<exists>n ts. map_of (validate_db data) ''next_id'' = Some n \<and> is_int n \<and> 1 \<le> int_value n \<and>
     map_of (validate_db data) ''tasks'' = Some (PList ts)"
  apply (cases "map_of data ''next_id''"; cases "map_of data ''tasks''")
     apply (simp_all add: validate_db_def default_db_def Let_def map_of_dict_set)
  subgoal for n ts
    by (cases ts) auto
  done

lemma is_list_conv: "is_list v \<longleftrightarrow> (\<exists>xs. v = PList xs)"
  by (cases v) simp_all

lemma valid_db_validate: "valid_db (validate_db data)"
  using validate_db_shape [of data] by (auto simp: valid_db_def)

lemma valid_db_default: "valid_db default_db"
  by (simp add: valid_db_def default_db_def)

lemma load_db_valid: "load_db m = Inr db \<Longrightarrow> valid_db db"
proof (cases m)
  case (Content x)
  assume "load_db m = Inr db"
  with Content show ?thesis
    by (cases x) (auto simp: valid_db_default valid_db_validate)
qed (auto simp: valid_db_default)

lemma validate_db_id: "valid_db db \<Longrightarrow> validate_db db = db"
  by (auto simp: valid_db_def validate_db_def split: option.splits)

lemma load_db_saved: "valid_db db \<Longrightarrow> load_db (Content (PDict db)) = Inr db"
  by (simp add: validate_db_id)

lemma valid_db_set_tasks: "valid_db db \<Longrightarrow> valid_db (dict_set db ''tasks'' (PList xs))"
  by (auto simp: valid_db_def map_of_dict_set split: option.splits)

lemma valid_db_set_next: "valid_db db \<Longrightarrow> 1 \<le> k \<Longrightarrow> valid_db (dict_set db ''next_id'' (PInt k))"
  by (auto simp: valid_db_def map_of_dict_set split: option.splits)

lemma valid_db_tasks: "valid_db db \<Longrightarrow> \<exists>ts. db_tasks db = Inr ts"
  by (auto simp: valid_db_def db_tasks_def is_list_conv split: option.splits)

lemma valid_db_next: "valid_db db \<Longrightarrow> \<exists>n. map_of db ''next_id'' = Some n \<and> is_int n \<and> 1 \<le> int_value n"
  by (auto simp: valid_db_def split: option.splits)

lemma db_tasks_set_tasks: "db_tasks (dict_set db ''tasks'' (PList xs)) = Inr xs"
  by (simp add: db_tasks_def map_of_dict_set)

lemma db_tasks_set_next: "db_tasks (dict_set db ''next_id'' v) = db_tasks db"
  by (simp add: db_tasks_def map_of_dict_set)

lemma save_db_simps:
  "medium (save_db w db) = Content (PDict db)"
  "tmp (save_db w db) = Absent"
  "saves (save_db w db) = saves w + 1"
  "clock (save_db w db) = clock w"
  by (simp_all add: save_db_def Let_def)

section \<open>Case analyses of the tools\<close>

text \<open>What a call of \<^verbatim>\<open>add_task\<close> does: it fails and changes nothing, or it saves the new task.\<close>

lemma add_task_cases:
  assumes "add_task w t d = (r, w')"
  shows "(\<exists>e. r = Inl e \<and> w' = w) \<or>
         (\<exists>db n ttl. load_db (medium w) = Inr db \<and> map_of db ''next_id'' = Some n \<and> is_int n \<and>
            add_title t = Inr ttl \<and> ttl \<noteq> [] \<and>
            r = Inr (serialize_task \<lparr>id_field = n, title = ttl, due_date = add_due_date d,
                      completed = False, created_at = shd (clock w) @ ''Z'', completed_at = PNone\<rparr>) \<and>
            (\<exists>ts. db_tasks db = Inr ts \<and>
            w' = save_db (w\<lparr>clock := stl (clock w)\<rparr>)
                   (dict_set (dict_set db ''next_id'' (PInt (int_value n + 1))) ''tasks''
                      (PList (ts @ [serialize_task \<lparr>id_field = n, title = ttl, due_date = add_due_date d,
                      completed = False, created_at = shd (clock w) @ ''Z'', completed_at = PNone\<rparr>])))))"
proof (cases "add_title t")
  case (Inl e)
  with assms show ?thesis by (auto simp: add_task_def)
next
  case (Inr ttl)
  note ttl = this
  show ?thesis
  proof (cases "ttl = []")
    case True
    with assms ttl show ?thesis by (auto simp: add_task_def)
  next
    case False
    show ?thesis
    proof (cases "load_db (medium w)")
      case (Inl e)
      with assms ttl False show ?thesis by (auto simp: add_task_def)
    next
      case (Inr db)
      from load_db_valid [OF Inr] obtain n ts where
        n: "map_of db ''next_id'' = Some n" "is_int n" and ts: "db_tasks db = Inr ts"
        using valid_db_next valid_db_tasks by blast
      from assms ttl False Inr n ts show ?thesis
        by (simp add: add_task_def Let_def now_iso_def db_tasks_set_next)
    qed
  qed
qed






lemma load_db_readable: "m \<noteq> Undecodable \<Longrightarrow> \<exists>db. load_db m = Inr db"
proof (cases m)
  case (Content x)
  then show ?thesis by (cases x) simp_all
qed simp_all

lemma add_task_succeeds:
  assumes "add_title t = Inr ttl" "ttl \<noteq> []" "medium w \<noteq> Undecodable"
  shows "\<exists>r w'. add_task w t d = (Inr r, w')"
proof -
  from assms(3) obtain db where db: "load_db (medium w) = Inr db"
    using load_db_readable by blast
  from load_db_valid [OF db] obtain n ts where
    "map_of db ''next_id'' = Some n" "is_int n" "db_tasks db = Inr ts"
    using valid_db_next valid_db_tasks by blast
  with assms db show ?thesis
    by (simp add: add_task_def Let_def now_iso_def db_tasks_set_next)
qed


subsection \<open>Locating a record\<close>

lemma first_with_id_Cons:
  "first_with_id (t # ts) n k \<longleftrightarrow>
     (k = 0 \<and> stored_id t = Inr n) \<or>
     (\<exists>k' m. k = Suc k' \<and> stored_id t = Inr m \<and> m \<noteq> n \<and> first_with_id ts n k')"
proof (cases k)
  case 0
  then show ?thesis by (simp add: first_with_id_def)
next
  case (Suc k')
  have "(\<forall>j<Suc k'. \<exists>m. stored_id ((t # ts) ! j) = Inr m \<and> m \<noteq> n) \<longleftrightarrow>
        (\<exists>m. stored_id t = Inr m \<and> m \<noteq> n) \<and> (\<forall>j<k'. \<exists>m. stored_id (ts ! j) = Inr m \<and> m \<noteq> n)"
    by (simp add: All_less_Suc2)
  with Suc show ?thesis by (auto simp: first_with_id_def)
qed

lemma locate_first:
  "py_int v = Inr n \<Longrightarrow> first_with_id ts n k \<Longrightarrow> locate ts v i = Inr (Some (i + k, ts ! k))"
proof (induction ts arbitrary: i k)
  case Nil
  then show ?case by (simp add: first_with_id_def)
next
  case (Cons t ts)
  from Cons.prems(2) show ?case
    unfolding first_with_id_Cons
  proof (elim disjE exE conjE)
    assume "k = 0" "stored_id t = Inr n"
    with Cons.prems(1) show ?thesis by simp
  next
    fix k' m
    assume k: "k = Suc k'" and m: "stored_id t = Inr m" "m \<noteq> n" and f: "first_with_id ts n k'"
    from Cons.IH [OF Cons.prems(1) f, of "Suc i"] k m Cons.prems(1) show ?thesis by simp
  qed
qed

lemma locate_Some:
  "locate ts v i = Inr (Some (k', t)) \<Longrightarrow>
   \<exists>n k. py_int v = Inr n \<and> k' = i + k \<and> first_with_id ts n k \<and> t = ts ! k"
proof (induction ts arbitrary: i)
  case Nil
  then show ?case by simp
next
  case (Cons a ts)
  from Cons.prems obtain m n where m: "stored_id a = Inr m" and n: "py_int v = Inr n"
    by (auto split: sum.splits)
  show ?case
  proof (cases "m = n")
    case True
    with Cons.prems m n have "k' = i" "t = a" by simp_all
    with True m n show ?thesis
      by (intro exI [of _ n] exI [of _ 0]) (simp add: first_with_id_Cons)
  next
    case False
    with Cons.prems m n have "locate ts v (Suc i) = Inr (Some (k', t))" by simp
    from Cons.IH [OF this] obtain n' k where
      "py_int v = Inr n'" "k' = Suc i + k" "first_with_id ts n' k" "t = ts ! k" by blast
    with False m n show ?thesis
      by (intro exI [of _ n] exI [of _ "Suc k"]) (simp add: first_with_id_Cons)
  qed
qed




subsection \<open>Parsing and serialising\<close>



lemma task_from_dict_Inr:
  assumes "task_from_dict t c = (Inr x, c1)"
  shows "\<exists>kvs n. t = PDict kvs \<and> py_int (dict_get kvs ''id'' PNone) = Inr n \<and>
           id_field x = PInt n \<and>
           title x = py_str (dict_get kvs ''title'' (PStr [])) \<and>
           due_date x = dict_get kvs ''due_date'' PNone \<and>
           completed x = py_bool (dict_get kvs ''completed'' (PBool False)) \<and>
           completed_at x = dict_get kvs ''completed_at'' PNone \<and>
           created_at x \<noteq> [] \<and>
           (if py_str (dict_get kvs ''created_at'' (PStr [])) \<noteq> []
            then created_at x = py_str (dict_get kvs ''created_at'' (PStr [])) \<and> c1 = c
            else created_at x = shd c @ ''Z'' \<and> c1 = stl c)"
  using assms
  by (cases t) (auto simp: task_from_dict_def Let_def now_iso_def split: sum.splits if_splits)




lemma py_get_serialize:
  "py_get (serialize_task x) ''id'' d = Inr (id_field x)"
  "py_get (serialize_task x) ''title'' d = Inr (PStr (title x))"
  "py_get (serialize_task x) ''due_date'' d = Inr (due_date x)"
  "py_get (serialize_task x) ''completed'' d = Inr (PBool (completed x))"
  "py_get (serialize_task x) ''created_at'' d = Inr (PStr (created_at x))"
  "py_get (serialize_task x) ''completed_at'' d = Inr (completed_at x)"
  by (simp_all add: serialize_task_def py_get_def dict_get_def)

subsection \<open>\<^verbatim>\<open>complete_task\<close>\<close>

lemma complete_task_cases:
  assumes "complete_task w v = (r, w')"
  shows "(\<exists>e. r = Inl e \<and> medium w' = medium w \<and> tmp w' = tmp w \<and> saves w' = saves w) \<or>
    (\<exists>db ts k t task c1. load_db (medium w) = Inr db \<and> db_tasks db = Inr ts \<and>
       locate ts v 0 = Inr (Some (k, t)) \<and> task_from_dict t (clock w) = (Inr task, c1) \<and>
       (completed task \<longrightarrow> r = Inr (serialize_task task) \<and> w' = w\<lparr>clock := c1\<rparr>) \<and>
       (\<not> completed task \<longrightarrow>
          r = Inr (serialize_task (task\<lparr>completed := True, completed_at := PStr (shd c1 @ ''Z'')\<rparr>)) \<and>
          w' = save_db (w\<lparr>clock := stl c1\<rparr>) (dict_set db ''tasks''
               (PList (ts[k := serialize_task (task\<lparr>completed := True,
                    completed_at := PStr (shd c1 @ ''Z'')\<rparr>)])))))"
  using assms
  by (auto simp: complete_task_def Let_def now_iso_def
      split: sum.splits option.splits prod.splits if_splits)




subsection \<open>Failures\<close>



lemma list_tasks_frame:
  "list_tasks w b = (r, w') \<Longrightarrow> medium w' = medium w \<and> tmp w' = tmp w \<and> saves w' = saves w"
  by (auto simp: list_tasks_def split: sum.splits prod.splits)

lemma update_task_cases:
  assumes "update_task w v ttl dd = (r, w')"
  shows "(\<exists>e. r = Inl e \<and> medium w' = medium w \<and> tmp w' = tmp w \<and> saves w' = saves w) \<or>
    (\<exists>db ts k t task c1 new_title. load_db (medium w) = Inr db \<and> db_tasks db = Inr ts \<and>
       locate ts v 0 = Inr (Some (k, t)) \<and> task_from_dict t (clock w) = (Inr task, c1) \<and>
       update_title ttl (title task) = Inr new_title \<and>
       r = Inr (serialize_task (task\<lparr>title := new_title,
              due_date := update_due_date dd (due_date task)\<rparr>)) \<and>
       w' = save_db (w\<lparr>clock := c1\<rparr>) (dict_set db ''tasks''
               (PList (ts[k := serialize_task (task\<lparr>title := new_title,
              due_date := update_due_date dd (due_date task)\<rparr>)]))))"
  using assms
  by (auto simp: update_task_def Let_def
      split: sum.splits option.splits prod.splits if_splits)

lemma delete_comp_coerces:
  "delete_comp ts v = Inr kept \<Longrightarrow> ts \<noteq> [] \<Longrightarrow> \<exists>n. py_int v = Inr n"
  by (cases ts) (auto split: sum.splits)

lemma delete_task_cases:
  assumes "delete_task w v = (r, w')"
  shows "(\<exists>e. r = Inl e \<and> w' = w) \<or>
    (\<exists>db ts kept n. load_db (medium w) = Inr db \<and> db_tasks db = Inr ts \<and>
       delete_comp ts v = Inr kept \<and> length kept \<noteq> length ts \<and> py_int v = Inr n \<and>
       r = Inr (PDict [(''deleted'', PBool True), (''task_id'', PInt n)]) \<and>
       w' = save_db w (dict_set db ''tasks'' (PList kept)))"
proof (cases "load_db (medium w)")
  case (Inl e)
  with assms show ?thesis by (auto simp: delete_task_def)
next
  case (Inr db)
  note db = this
  show ?thesis
  proof (cases "db_tasks db")
    case (Inl e)
    with assms db show ?thesis by (auto simp: delete_task_def)
  next
    case (Inr ts)
    note ts = this
    show ?thesis
    proof (cases "delete_comp ts v")
      case (Inl e)
      with assms db ts show ?thesis by (auto simp: delete_task_def)
    next
      case (Inr kept)
      show ?thesis
      proof (cases "length kept = length ts")
        case True
        with assms db ts Inr show ?thesis by (auto simp: delete_task_def)
      next
        case False
        with Inr have "ts \<noteq> []" by auto
        from delete_comp_coerces [OF Inr this] obtain n where "py_int v = Inr n" ..
        with assms db ts Inr False show ?thesis by (auto simp: delete_task_def Let_def)
      qed
    qed
  qed
qed

lemma clear_completed_cases:
  assumes "clear_completed w = (r, w')"
  shows "(\<exists>e. r = Inl e \<and> w' = w) \<or>
    (\<exists>db ts kept. load_db (medium w) = Inr db \<and> db_tasks db = Inr ts \<and>
       clear_comp ts = Inr kept \<and>
       r = Inr (PDict [(''cleared'', PInt (int (length ts) - int (length kept)))]) \<and>
       w' = save_db w (dict_set db ''tasks'' (PList kept)))"
  using assms
  by (auto simp: clear_completed_def split: sum.splits)









subsection \<open>Saves and changes of the file\<close>

lemma saved_differs:
  assumes "load_db (medium w) = Inr db" "valid_db db'" "db' \<noteq> db"
  shows "Content (PDict db') \<noteq> medium w"
proof
  assume "Content (PDict db') = medium w"
  with load_db_saved [OF assms(2)] assms(1) have "db' = db" by simp
  with assms(3) show False by simp
qed

lemma add_task_changes:
  assumes "add_task w t d = (r, w')" "saves w' \<noteq> saves w"
  shows "medium w' \<noteq> medium w"
  using add_task_cases [OF assms(1)]
proof (elim disjE exE conjE)
  fix e assume "r = Inl e" "w' = w"
  with assms(2) show ?thesis by simp
next
  fix db n ttl ts
  assume db: "load_db (medium w) = Inr db" and n: "map_of db ''next_id'' = Some n" and
    w': "w' = save_db (w\<lparr>clock := stl (clock w)\<rparr>)
                   (dict_set (dict_set db ''next_id'' (PInt (int_value n + 1))) ''tasks''
                      (PList (ts @ [serialize_task \<lparr>id_field = n, title = ttl,
                         due_date = add_due_date d, completed = False,
                         created_at = shd (clock w) @ ''Z'', completed_at = PNone\<rparr>])))"
  define db' where "db' = dict_set (dict_set db ''next_id'' (PInt (int_value n + 1))) ''tasks''
                      (PList (ts @ [serialize_task \<lparr>id_field = n, title = ttl,
                         due_date = add_due_date d, completed = False,
                         created_at = shd (clock w) @ ''Z'', completed_at = PNone\<rparr>]))"
  from load_db_valid [OF db] n have "1 \<le> int_value n"
    by (auto simp: valid_db_def split: option.splits)
  with load_db_valid [OF db] have v: "valid_db db'"
    unfolding db'_def by (intro valid_db_set_tasks valid_db_set_next) simp_all
  have "map_of db' ''next_id'' = Some (PInt (int_value n + 1))"
    by (simp add: db'_def map_of_dict_set)
  moreover have "n \<noteq> PInt (int_value n + 1)"
    by (cases n) auto
  ultimately have "db' \<noteq> db" using n by auto
  from saved_differs [OF db v this] show ?thesis
    by (simp add: w' save_db_simps db'_def)
qed


lemma tasks_changed:
  assumes "db_tasks db = Inr ts" "xs \<noteq> ts"
  shows "dict_set db ''tasks'' (PList xs) \<noteq> db"
proof
  assume "dict_set db ''tasks'' (PList xs) = db"
  then have "db_tasks (dict_set db ''tasks'' (PList xs)) = db_tasks db" by simp
  with assms show False by (simp add: db_tasks_set_tasks)
qed

lemma saved_tasks_differ:
  assumes db: "load_db (medium w) = Inr db" and ts: "db_tasks db = Inr ts" and ne: "xs \<noteq> ts"
  shows "medium (save_db w0 (dict_set db ''tasks'' (PList xs))) \<noteq> medium w"
proof -
  have "valid_db (dict_set db ''tasks'' (PList xs))"
    by (rule valid_db_set_tasks [OF load_db_valid [OF db]])
  from saved_differs [OF db this tasks_changed [OF ts ne]] show ?thesis
    by (simp add: save_db_simps)
qed

lemma complete_task_changes:
  assumes "complete_task w i = (r, w')" "saves w' \<noteq> saves w"
  shows "medium w' \<noteq> medium w"
  using complete_task_cases [OF assms(1)]
proof (elim disjE exE conjE)
  fix e assume "saves w' = saves w"
  with assms(2) show ?thesis by simp
next
  fix db ts k t task c1
  assume db: "load_db (medium w) = Inr db" and ts: "db_tasks db = Inr ts" and
    loc: "locate ts i 0 = Inr (Some (k, t))" and
    tfd: "task_from_dict t (clock w) = (Inr task, c1)" and
    res1: "completed task \<longrightarrow> r = Inr (serialize_task task) \<and> w' = w\<lparr>clock := c1\<rparr>" and
    res2: "\<not> completed task \<longrightarrow>
          r = Inr (serialize_task (task\<lparr>completed := True, completed_at := PStr (shd c1 @ ''Z'')\<rparr>)) \<and>
          w' = save_db (w\<lparr>clock := stl c1\<rparr>) (dict_set db ''tasks''
               (PList (ts[k := serialize_task (task\<lparr>completed := True,
                    completed_at := PStr (shd c1 @ ''Z'')\<rparr>)])))"
  define new where
    "new = serialize_task (task\<lparr>completed := True, completed_at := PStr (shd c1 @ ''Z'')\<rparr>)"
  have open_task: "\<not> completed task"
  proof
    assume "completed task"
    with res1 have "w' = w\<lparr>clock := c1\<rparr>" by simp
    with assms(2) show False by simp
  qed
  with res2 have w': "w' = save_db (w\<lparr>clock := stl c1\<rparr>) (dict_set db ''tasks'' (PList (ts[k := new])))"
    by (simp add: new_def)
  from locate_Some [OF loc] have k: "k < length ts" and tk: "t = ts ! k"
    by (auto simp: first_with_id_def)
  from task_from_dict_Inr [OF tfd] obtain kvs where
    t: "t = PDict kvs" and c: "completed task = py_bool (dict_get kvs ''completed'' (PBool False))"
    by blast
  have "new \<noteq> t"
  proof
    assume "new = t"
    with t have "kvs = [(''id'', id_field task), (''title'', PStr (title task)),
        (''due_date'', due_date task), (''completed'', PBool True),
        (''created_at'', PStr (created_at task)), (''completed_at'', PStr (shd c1 @ ''Z''))]"
      by (simp add: new_def serialize_task_def)
    then have "dict_get kvs ''completed'' (PBool False) = PBool True"
      by (simp add: dict_get_def)
    with c open_task show False by simp
  qed
  with k tk have "ts[k := new] \<noteq> ts"
    by (metis nth_list_update_eq)
  from saved_tasks_differ [OF db ts this] show ?thesis
    by (simp add: w')
qed

lemma delete_task_changes:
  assumes "delete_task w i = (r, w')" "saves w' \<noteq> saves w"
  shows "medium w' \<noteq> medium w"
  using delete_task_cases [OF assms(1)]
proof (elim disjE exE conjE)
  fix e assume "w' = w"
  with assms(2) show ?thesis by simp
next
  fix db ts kept n
  assume db: "load_db (medium w) = Inr db" and ts: "db_tasks db = Inr ts" and
    len: "length kept \<noteq> length ts" and
    w': "w' = save_db w (dict_set db ''tasks'' (PList kept))"
  from len have "kept \<noteq> ts" by auto
  from saved_tasks_differ [OF db ts this] show ?thesis
    by (simp add: w')
qed


lemma invoke_saves:
  assumes "invoke c w = (r, w')"
  shows "(saves w' = saves w \<and> medium w' = medium w \<and> tmp w' = tmp w) \<or>
         (saves w' = saves w + 1 \<and> (\<exists>v. r = Inr v))"
proof (cases c)
  case (AddTask t d)
  with assms have "add_task w t d = (r, w')" by simp
  from add_task_cases [OF this] show ?thesis
    by (elim disjE exE conjE) (simp_all add: save_db_simps)
next
  case (ListTasks b)
  with assms list_tasks_frame [of w b r w'] show ?thesis by simp
next
  case (CompleteTask i)
  with assms have "complete_task w i = (r, w')" by simp
  from complete_task_cases [OF this] show ?thesis
  proof (elim disjE exE conjE)
    fix db ts k t task c1
    assume res1: "completed task \<longrightarrow> r = Inr (serialize_task task) \<and> w' = w\<lparr>clock := c1\<rparr>" and
      res2: "\<not> completed task \<longrightarrow>
          r = Inr (serialize_task (task\<lparr>completed := True, completed_at := PStr (shd c1 @ ''Z'')\<rparr>)) \<and>
          w' = save_db (w\<lparr>clock := stl c1\<rparr>) (dict_set db ''tasks''
               (PList (ts[k := serialize_task (task\<lparr>completed := True,
                    completed_at := PStr (shd c1 @ ''Z'')\<rparr>)])))"
    show ?thesis
    proof (cases "completed task")
      case True
      with res1 show ?thesis by simp
    next
      case False
      with res2 show ?thesis by (simp add: save_db_simps)
    qed
  qed simp
next
  case (DeleteTask i)
  with assms have "delete_task w i = (r, w')" by simp
  from delete_task_cases [OF this] show ?thesis
    by (elim disjE exE conjE) (simp_all add: save_db_simps)
next
  case (UpdateTask i t d)
  with assms have "update_task w i t d = (r, w')" by simp
  from update_task_cases [OF this] show ?thesis
    by (elim disjE exE conjE) (simp_all add: save_db_simps)
next
  case ClearCompleted
  with assms have "clear_completed w = (r, w')" by simp
  from clear_completed_cases [OF this] show ?thesis
    by (elim disjE exE conjE) (simp_all add: save_db_simps)
qed

lemma always_saves_success:
  assumes "invoke c w = (Inr v, w')" "always_saves c"
  shows "saves w' = saves w + 1"
proof (cases c)
  case (UpdateTask i t d)
  with assms have "update_task w i t d = (Inr v, w')" by simp
  from update_task_cases [OF this] show ?thesis
    by (elim disjE exE conjE) (simp_all add: save_db_simps)
next
  case ClearCompleted
  with assms have "clear_completed w = (Inr v, w')" by simp
  from clear_completed_cases [OF this] show ?thesis
    by (elim disjE exE conjE) (simp_all add: save_db_simps)
qed (use assms in simp_all)

lemma save_means_change:
  assumes "invoke c w = (r, w')" "\<not> always_saves c" "saves w' \<noteq> saves w"
  shows "medium w' \<noteq> medium w"
proof (cases c)
  case (AddTask t d)
  with assms add_task_changes [of w t d r w'] show ?thesis by simp
next
  case (ListTasks b)
  with assms list_tasks_frame [of w b r w'] show ?thesis by simp
next
  case (CompleteTask i)
  with assms complete_task_changes [of w i r w'] show ?thesis by simp
next
  case (DeleteTask i)
  with assms delete_task_changes [of w i r w'] show ?thesis by simp
qed (use assms in simp_all)

subsection \<open>Coerced ids\<close>







subsection \<open>The listed tasks\<close>


lemma task_from_dict_view: "task_from_dict t c = (Inr x, c') \<Longrightarrow> is_view t x"
proof -
  assume a: "task_from_dict t c = (Inr x, c')"
  from task_from_dict_Inr [OF a] obtain kvs n where
    "t = PDict kvs" "py_int (dict_get kvs ''id'' PNone) = Inr n" "id_field x = PInt n"
    "title x = py_str (dict_get kvs ''title'' (PStr []))"
    "due_date x = dict_get kvs ''due_date'' PNone"
    "completed x = py_bool (dict_get kvs ''completed'' (PBool False))"
    "completed_at x = dict_get kvs ''completed_at'' PNone"
    "created_at x \<noteq> []"
    "if py_str (dict_get kvs ''created_at'' (PStr [])) \<noteq> []
     then created_at x = py_str (dict_get kvs ''created_at'' (PStr [])) \<and> c' = c
     else created_at x = shd c @ ''Z'' \<and> c' = stl c"
    by blast
  then show ?thesis
    by (simp add: is_view_def split: if_splits)
qed








subsection \<open>\<^verbatim>\<open>delete_task\<close>\<close>







subsection \<open>The completion invariant\<close>

lemma record_ok_serialize:
  "record_ok (serialize_task x) \<longleftrightarrow> (completed x \<longleftrightarrow> completed_at x \<noteq> PNone)"
  by (simp add: record_ok_def serialize_task_def dict_get_def)

lemma result_ok_serialize: "result_ok (serialize_task x) = record_ok (serialize_task x)"
  by (simp add: result_ok_def serialize_task_def)

lemma view_ok:
  assumes "is_view t x" "record_ok t"
  shows "record_ok (serialize_task x)"
proof (cases t)
  case (PDict kvs)
  with assms have "completed x = py_bool (dict_get kvs ''completed'' (PBool False))"
    "completed_at x = dict_get kvs ''completed_at'' PNone"
    "py_bool (dict_get kvs ''completed'' (PBool False)) =
       (dict_get kvs ''completed_at'' PNone \<noteq> PNone)"
    by (simp_all add: is_view_def record_ok_def)
  then show ?thesis by (simp add: record_ok_serialize)
qed (use assms in \<open>simp_all add: is_view_def\<close>)

lemma doc_ok_loaded:
  "load_db m = Inr db \<Longrightarrow> db_tasks db = Inr ts \<Longrightarrow> doc_ok m = list_all record_ok ts"
  by (simp add: doc_ok_def)

lemma doc_ok_saved:
  assumes "valid_db db" "db_tasks db = Inr ts" "list_all record_ok ts"
  shows "doc_ok (medium (save_db w db))"
  using assms load_db_saved [OF assms(1)] by (simp add: doc_ok_def save_db_simps)

lemma list_all_update: "list_all P xs \<Longrightarrow> P x \<Longrightarrow> list_all P (xs[k := x])"
  by (induction xs arbitrary: k) (auto split: nat.splits)

lemma list_comp_views:
  "list_comp b ts c = (Inr ys, c') \<Longrightarrow> \<forall>x\<in>set ys. \<exists>t\<in>set ts. is_view t x"
proof (induction ts arbitrary: c ys c')
  case Nil
  then show ?case by simp
next
  case (Cons a ts)
  from Cons.prems obtain v where v: "py_get a ''completed'' (PBool False) = Inr v"
    by (auto split: sum.splits)
  show ?case
  proof (cases "py_bool v = b")
    case False
    with Cons.prems v have "list_comp b ts c = (Inr ys, c')" by simp
    from Cons.IH [OF this] show ?thesis by auto
  next
    case True
    with Cons.prems v obtain task c1 rest where
      t: "task_from_dict a c = (Inr task, c1)" and r: "list_comp b ts c1 = (Inr rest, c')" and
      e: "ys = task # rest"
      by (auto split: sum.splits prod.splits)
    from task_from_dict_view [OF t] Cons.IH [OF r] e show ?thesis by auto
  qed
qed

lemma delete_comp_subset: "delete_comp ts v = Inr kept \<Longrightarrow> set kept \<subseteq> set ts"
proof (induction ts arbitrary: kept)
  case Nil
  then show ?case by simp
next
  case (Cons a ts)
  from Cons.prems obtain rest where "delete_comp ts v = Inr rest" "set kept \<subseteq> insert a (set rest)"
    by (auto split: sum.splits if_splits)
  with Cons.IH show ?case by auto
qed

lemma clear_comp_subset: "clear_comp ts = Inr kept \<Longrightarrow> set kept \<subseteq> set ts"
proof (induction ts arbitrary: kept)
  case Nil
  then show ?case by simp
next
  case (Cons a ts)
  from Cons.prems obtain rest where "clear_comp ts = Inr rest" "set kept \<subseteq> insert a (set rest)"
    by (auto split: sum.splits if_splits)
  with Cons.IH show ?case by auto
qed


lemma saved_ok:
  assumes "valid_db db0"
  shows "doc_ok (medium (save_db w0 (dict_set db0 ''tasks'' (PList xs)))) = list_all record_ok xs"
proof -
  have "valid_db (dict_set db0 ''tasks'' (PList xs))"
    by (rule valid_db_set_tasks [OF assms])
  from load_db_saved [OF this] show ?thesis
    by (simp add: doc_ok_def save_db_simps db_tasks_set_tasks)
qed

lemma add_task_ok:
  assumes ok: "doc_ok (medium w)" and run: "add_task w t d = (r, w')"
  shows "doc_ok (medium w') \<and> (\<forall>v. r = Inr v \<longrightarrow> result_ok v)"
  using add_task_cases [OF run]
proof (elim disjE exE conjE)
  fix e assume "r = Inl e" "w' = w"
  with ok show ?thesis by simp
next
  fix db n ttl ts
  assume db: "load_db (medium w) = Inr db" and n: "map_of db ''next_id'' = Some n" and
    ts: "db_tasks db = Inr ts" and
    r: "r = Inr (serialize_task \<lparr>id_field = n, title = ttl, due_date = add_due_date d,
            completed = False, created_at = shd (clock w) @ ''Z'', completed_at = PNone\<rparr>)" and
    w': "w' = save_db (w\<lparr>clock := stl (clock w)\<rparr>)
                   (dict_set (dict_set db ''next_id'' (PInt (int_value n + 1))) ''tasks''
                      (PList (ts @ [serialize_task \<lparr>id_field = n, title = ttl,
                         due_date = add_due_date d, completed = False,
                         created_at = shd (clock w) @ ''Z'', completed_at = PNone\<rparr>])))"
  define new where "new = serialize_task \<lparr>id_field = n, title = ttl, due_date = add_due_date d,
            completed = False, created_at = shd (clock w) @ ''Z'', completed_at = PNone\<rparr>"
  have new: "record_ok new" "result_ok new"
    by (simp_all add: new_def record_ok_serialize result_ok_serialize)
  from load_db_valid [OF db] n have "1 \<le> int_value n"
    by (auto simp: valid_db_def split: option.splits)
  with load_db_valid [OF db] have v: "valid_db (dict_set db ''next_id'' (PInt (int_value n + 1)))"
    by (intro valid_db_set_next) simp_all
  from ok doc_ok_loaded [OF db ts] have "list_all record_ok ts" by simp
  with new have "list_all record_ok (ts @ [new])" by simp
  with saved_ok [OF v] have "doc_ok (medium w')"
    by (simp add: w' new_def)
  with new show ?thesis by (simp add: r new_def)
qed

lemma list_tasks_ok:
  assumes ok: "doc_ok (medium w)" and run: "list_tasks w b = (r, w')"
  shows "doc_ok (medium w') \<and> (\<forall>v. r = Inr v \<longrightarrow> result_ok v)"
proof -
  from list_tasks_frame [OF run] ok have 1: "doc_ok (medium w')" by simp
  have 2: "\<forall>v. r = Inr v \<longrightarrow> result_ok v"
  proof (intro allI impI)
    fix v assume "r = Inr v"
    with run obtain db ts ys c1 where db: "load_db (medium w) = Inr db" and
      ts: "db_tasks db = Inr ts" and lc: "list_comp b ts (clock w) = (Inr ys, c1)" and
      v: "v = PList (map serialize_task (sort_key sort_key_of ys))"
      by (auto simp: list_tasks_def split: sum.splits prod.splits)
    from ok doc_ok_loaded [OF db ts] have all: "list_all record_ok ts" by simp
    have "\<forall>x\<in>set ys. record_ok (serialize_task x)"
    proof
      fix x assume "x \<in> set ys"
      with list_comp_views [OF lc] obtain t where "t \<in> set ts" "is_view t x" by blast
      with all view_ok show "record_ok (serialize_task x)" by (auto simp: list_all_iff)
    qed
    then show "result_ok v"
      by (simp add: v result_ok_def list_all_iff)
  qed
  from 1 2 show ?thesis ..
qed


lemma located_record:
  "locate ts i 0 = Inr (Some (k, t)) \<Longrightarrow> t \<in> set ts"
  using locate_Some [of ts i 0 k t] by (auto simp: first_with_id_def)

lemma complete_task_ok:
  assumes ok: "doc_ok (medium w)" and run: "complete_task w i = (r, w')"
  shows "doc_ok (medium w') \<and> (\<forall>v. r = Inr v \<longrightarrow> result_ok v)"
  using complete_task_cases [OF run]
proof (elim disjE exE conjE)
  fix e assume "r = Inl e" "medium w' = medium w"
  with ok show ?thesis by simp
next
  fix db ts k t task c1
  assume db: "load_db (medium w) = Inr db" and ts: "db_tasks db = Inr ts" and
    loc: "locate ts i 0 = Inr (Some (k, t))" and
    tfd: "task_from_dict t (clock w) = (Inr task, c1)" and
    res1: "completed task \<longrightarrow> r = Inr (serialize_task task) \<and> w' = w\<lparr>clock := c1\<rparr>" and
    res2: "\<not> completed task \<longrightarrow>
          r = Inr (serialize_task (task\<lparr>completed := True, completed_at := PStr (shd c1 @ ''Z'')\<rparr>)) \<and>
          w' = save_db (w\<lparr>clock := stl c1\<rparr>) (dict_set db ''tasks''
               (PList (ts[k := serialize_task (task\<lparr>completed := True,
                    completed_at := PStr (shd c1 @ ''Z'')\<rparr>)])))"
  from ok doc_ok_loaded [OF db ts] have all: "list_all record_ok ts" by simp
  show ?thesis
  proof (cases "completed task")
    case True
    with res1 have r: "r = Inr (serialize_task task)" and w': "w' = w\<lparr>clock := c1\<rparr>" by simp_all
    from located_record [OF loc] all have "record_ok t" by (simp add: list_all_iff)
    from view_ok [OF task_from_dict_view [OF tfd] this] ok show ?thesis
      by (simp add: r w' result_ok_serialize)
  next
    case False
    define new where
      "new = serialize_task (task\<lparr>completed := True, completed_at := PStr (shd c1 @ ''Z'')\<rparr>)"
    from False res2 have r: "r = Inr new" and
      w': "w' = save_db (w\<lparr>clock := stl c1\<rparr>) (dict_set db ''tasks'' (PList (ts[k := new])))"
      by (simp_all add: new_def)
    have new: "record_ok new" "result_ok new"
      by (simp_all add: new_def record_ok_serialize result_ok_serialize)
    from list_all_update [OF all new(1)] saved_ok [OF load_db_valid [OF db]]
    have "doc_ok (medium w')" by (simp add: w')
    with new show ?thesis by (simp add: r)
  qed
qed

lemma update_task_ok:
  assumes ok: "doc_ok (medium w)" and run: "update_task w i ttl dd = (r, w')"
  shows "doc_ok (medium w') \<and> (\<forall>v. r = Inr v \<longrightarrow> result_ok v)"
  using update_task_cases [OF run]
proof (elim disjE exE conjE)
  fix e assume "r = Inl e" "medium w' = medium w"
  with ok show ?thesis by simp
next
  fix db ts k t task c1 new_title
  assume db: "load_db (medium w) = Inr db" and ts: "db_tasks db = Inr ts" and
    loc: "locate ts i 0 = Inr (Some (k, t))" and
    tfd: "task_from_dict t (clock w) = (Inr task, c1)" and
    r: "r = Inr (serialize_task (task\<lparr>title := new_title,
              due_date := update_due_date dd (due_date task)\<rparr>))" and
    w': "w' = save_db (w\<lparr>clock := c1\<rparr>) (dict_set db ''tasks''
               (PList (ts[k := serialize_task (task\<lparr>title := new_title,
              due_date := update_due_date dd (due_date task)\<rparr>)])))"
  define new where "new = serialize_task (task\<lparr>title := new_title,
              due_date := update_due_date dd (due_date task)\<rparr>)"
  from ok doc_ok_loaded [OF db ts] have all: "list_all record_ok ts" by simp
  from located_record [OF loc] all have "record_ok t" by (simp add: list_all_iff)
  from view_ok [OF task_from_dict_view [OF tfd] this]
  have new: "record_ok new" "result_ok new"
    by (simp_all add: new_def record_ok_serialize result_ok_serialize)
  from list_all_update [OF all new(1)] saved_ok [OF load_db_valid [OF db]]
  have "doc_ok (medium w')" by (simp add: w' new_def)
  with new show ?thesis by (simp add: r new_def)
qed

lemma delete_task_ok:
  assumes ok: "doc_ok (medium w)" and run: "delete_task w i = (r, w')"
  shows "doc_ok (medium w') \<and> (\<forall>v. r = Inr v \<longrightarrow> result_ok v)"
  using delete_task_cases [OF run]
proof (elim disjE exE conjE)
  fix e assume "r = Inl e" "w' = w"
  with ok show ?thesis by simp
next
  fix db ts kept n
  assume db: "load_db (medium w) = Inr db" and ts: "db_tasks db = Inr ts" and
    dc: "delete_comp ts i = Inr kept" and
    r: "r = Inr (PDict [(''deleted'', PBool True), (''task_id'', PInt n)])" and
    w': "w' = save_db w (dict_set db ''tasks'' (PList kept))"
  from ok doc_ok_loaded [OF db ts] have "list_all record_ok ts" by simp
  with delete_comp_subset [OF dc] have "list_all record_ok kept"
    by (auto simp: list_all_iff)
  with saved_ok [OF load_db_valid [OF db]] have "doc_ok (medium w')" by (simp add: w')
  moreover have "result_ok (PDict [(''deleted'', PBool True), (''task_id'', PInt n)])"
    by (simp add: result_ok_def record_ok_def dict_get_def)
  ultimately show ?thesis by (simp add: r)
qed

lemma clear_completed_ok:
  assumes ok: "doc_ok (medium w)" and run: "clear_completed w = (r, w')"
  shows "doc_ok (medium w') \<and> (\<forall>v. r = Inr v \<longrightarrow> result_ok v)"
  using clear_completed_cases [OF run]
proof (elim disjE exE conjE)
  fix e assume "r = Inl e" "w' = w"
  with ok show ?thesis by simp
next
  fix db ts kept
  assume db: "load_db (medium w) = Inr db" and ts: "db_tasks db = Inr ts" and
    cc: "clear_comp ts = Inr kept" and
    r: "r = Inr (PDict [(''cleared'', PInt (int (length ts) - int (length kept)))])" and
    w': "w' = save_db w (dict_set db ''tasks'' (PList kept))"
  from ok doc_ok_loaded [OF db ts] have "list_all record_ok ts" by simp
  with clear_comp_subset [OF cc] have "list_all record_ok kept"
    by (auto simp: list_all_iff)
  with saved_ok [OF load_db_valid [OF db]] have "doc_ok (medium w')" by (simp add: w')
  moreover have "result_ok (PDict [(''cleared'', PInt (int (length ts) - int (length kept)))])"
    by (simp add: result_ok_def record_ok_def dict_get_def)
  ultimately show ?thesis by (simp add: r)
qed

lemma invoke_ok:
  assumes "doc_ok (medium w)" "invoke c w = (r, w')"
  shows "doc_ok (medium w') \<and> (\<forall>v. r = Inr v \<longrightarrow> result_ok v)"
proof (cases c)
  case (AddTask t d)
  with assms show ?thesis using add_task_ok [of w t d r w'] by simp
next
  case (ListTasks b)
  with assms show ?thesis using list_tasks_ok [of w b r w'] by simp
next
  case (CompleteTask i)
  with assms show ?thesis using complete_task_ok [of w i r w'] by simp
next
  case (DeleteTask i)
  with assms show ?thesis using delete_task_ok [of w i r w'] by simp
next
  case (UpdateTask i t d)
  with assms show ?thesis using update_task_ok [of w i t d r w'] by simp
next
  case ClearCompleted
  with assms show ?thesis using clear_completed_ok [of w r w'] by simp
qed

lemma invoke_all_ok:
  "doc_ok (medium w) \<Longrightarrow> invoke_all cs w = (rs, w') \<Longrightarrow>
   doc_ok (medium w') \<and> (\<forall>v. Inr v \<in> set rs \<longrightarrow> result_ok v)"
proof (induction cs arbitrary: w rs w')
  case Nil
  then show ?case by simp
next
  case (Cons c cs)
  obtain r w1 where step: "invoke c w = (r, w1)" by (cases "invoke c w")
  obtain rs1 w2 where rest: "invoke_all cs w1 = (rs1, w2)" by (cases "invoke_all cs w1")
  from Cons.prems(2) step rest have e: "rs = r # rs1" "w' = w2" by simp_all
  from invoke_ok [OF Cons.prems(1) step] have 1: "doc_ok (medium w1)"
    and 2: "\<forall>v. r = Inr v \<longrightarrow> result_ok v" by simp_all
  from Cons.IH [OF 1 rest] 2 show ?case by (auto simp: e)
qed


lemma add_task_open:
  assumes "add_task w t d = (Inr v, w')"
  shows "py_get v ''completed'' PNone = Inr (PBool False) \<and>
         py_get v ''completed_at'' PNone = Inr PNone"
  using add_task_cases [OF assms] by (auto simp: py_get_serialize)

lemma complete_task_stamps:
  assumes run: "complete_task w i = (Inr v, w')" and saved: "saves w' \<noteq> saves w"
  shows "py_get v ''completed'' PNone = Inr (PBool True) \<and>
         (\<exists>s. py_get v ''completed_at'' PNone = Inr (PStr s))"
  using complete_task_cases [OF run]
proof (elim disjE exE conjE)
  fix e assume "Inr v = Inl e"
  then show ?thesis by simp
next
  fix db ts k t task c1
  assume res1: "completed task \<longrightarrow> Inr v = Inr (serialize_task task) \<and> w' = w\<lparr>clock := c1\<rparr>" and
    res2: "\<not> completed task \<longrightarrow>
          Inr v = Inr (serialize_task (task\<lparr>completed := True,
             completed_at := PStr (shd c1 @ ''Z'')\<rparr>)) \<and>
          w' = save_db (w\<lparr>clock := stl c1\<rparr>) (dict_set db ''tasks''
               (PList (ts[k := serialize_task (task\<lparr>completed := True,
                    completed_at := PStr (shd c1 @ ''Z'')\<rparr>)])))"
  have "\<not> completed task"
  proof
    assume "completed task"
    with res1 have "w' = w\<lparr>clock := c1\<rparr>" by simp
    with saved show False by simp
  qed
  with res2 have "v = serialize_task (task\<lparr>completed := True,
      completed_at := PStr (shd c1 @ ''Z'')\<rparr>)" by simp
  then show ?thesis by (simp add: py_get_serialize)
qed

lemma update_task_keeps:
  assumes run: "update_task w i t d = (Inr v, w')" and db: "load_db (medium w) = Inr db" and
    ts: "db_tasks db = Inr ts" and i: "py_int i = Inr n" and first: "first_with_id ts n k"
  shows "py_get v ''completed'' PNone = Inr (PBool (stored_completed (ts ! k))) \<and>
         py_get v ''completed_at'' PNone = py_get (ts ! k) ''completed_at'' PNone"
  using update_task_cases [OF run]
proof (elim disjE exE conjE)
  fix e assume "Inr v = Inl e"
  then show ?thesis by simp
next
  fix db' ts' k' rec task c1 new_title
  assume db': "load_db (medium w) = Inr db'" and ts': "db_tasks db' = Inr ts'" and
    loc: "locate ts' i 0 = Inr (Some (k', rec))" and
    tfd: "task_from_dict rec (clock w) = (Inr task, c1)" and
    r: "Inr v = Inr (serialize_task (task\<lparr>title := new_title,
              due_date := update_due_date d (due_date task)\<rparr>))"
  from db db' ts ts' have "ts' = ts" by simp
  with loc locate_first [OF i first, of 0] have rec: "rec = ts ! k" by auto
  from task_from_dict_Inr [OF tfd] obtain kvs where
    kvs: "rec = PDict kvs" and
    c: "completed task = py_bool (dict_get kvs ''completed'' (PBool False))" and
    ca: "completed_at task = dict_get kvs ''completed_at'' PNone"
    by blast
  from rec kvs have tk: "ts ! k = PDict kvs" by simp
  have a: "stored_completed (ts ! k) = py_bool (dict_get kvs ''completed'' (PBool False))"
    by (simp add: tk stored_completed_def)
  have b: "py_get (ts ! k) ''completed_at'' PNone = Inr (dict_get kvs ''completed_at'' PNone)"
    by (simp add: tk py_get_def)
  from r have v: "v = serialize_task (task\<lparr>title := new_title,
              due_date := update_due_date d (due_date task)\<rparr>)" by simp
  show ?thesis
    by (simp add: v py_get_serialize a b c ca)
qed

subsection \<open>The excluded branches\<close>

text \<open>
  No tool ever takes a branch marked \<open>Unreachable\<close>: the document that \<^verbatim>\<open>_load_db\<close> returns
  always has an integer \<^verbatim>\<open>next_id\<close> and a list \<^verbatim>\<open>tasks\<close>.
\<close>

lemma py_int_reach: "py_int v \<noteq> Inl Unreachable"
proof (cases v)
  case (PFloat f)
  then show ?thesis by (cases f) simp_all
next
  case (PStr s)
  then show ?thesis by (simp add: int_of_str_def Let_def)
qed simp_all

lemma stored_id_reach: "stored_id t \<noteq> Inl Unreachable"
  using py_int_reach by (cases t) (simp_all add: stored_id_def py_get_def)

lemma py_get_reach: "py_get t k d \<noteq> Inl Unreachable"
  by (cases t) (simp_all add: py_get_def)

lemma load_db_reach: "load_db m \<noteq> Inl Unreachable"
proof (cases m)
  case (Content x)
  then show ?thesis by (cases x) simp_all
qed simp_all

lemma locate_reach: "locate ts v i \<noteq> Inl Unreachable"
proof (induction ts arbitrary: i)
  case Nil
  then show ?case by simp
next
  case (Cons a ts)
  show ?case
  proof (cases "stored_id a")
    case (Inl e)
    with stored_id_reach [of a] show ?thesis by simp
  next
    case (Inr m)
    note m = this
    show ?thesis
    proof (cases "py_int v")
      case (Inl e)
      with py_int_reach [of v] m show ?thesis by simp
    next
      case (Inr n)
      with m Cons.IH show ?thesis by simp
    qed
  qed
qed

lemma task_from_dict_reach: "task_from_dict t c = (Inl e, c') \<Longrightarrow> e \<noteq> Unreachable"
proof (cases t)
  case (PDict kvs)
  assume a: "task_from_dict t c = (Inl e, c')"
  show ?thesis
  proof (cases "py_int (dict_get kvs ''id'' PNone)")
    case (Inl e')
    with a PDict have "e = e'" by (simp add: task_from_dict_def)
    with Inl py_int_reach [of "dict_get kvs ''id'' PNone"] show ?thesis by auto
  next
    case (Inr n)
    with a PDict show ?thesis
      by (simp add: task_from_dict_def Let_def split: prod.splits)
  qed
qed (auto simp: task_from_dict_def)


lemma list_comp_reach: "list_comp b ts c = (Inl e, c') \<Longrightarrow> e \<noteq> Unreachable"
proof (induction ts arbitrary: c)
  case Nil
  then show ?case by simp
next
  case (Cons a ts)
  show ?case
  proof (cases "py_get a ''completed'' (PBool False)")
    case (Inl e')
    with Cons.prems py_get_reach [of a "''completed''" "PBool False"] show ?thesis by auto
  next
    case (Inr v)
    note v = this
    show ?thesis
    proof (cases "py_bool v = b")
      case False
      with Cons v show ?thesis by simp
    next
      case True
      obtain r c1 where t: "task_from_dict a c = (r, c1)" by (cases "task_from_dict a c")
      show ?thesis
      proof (cases r)
        case (Inl e')
        with Cons.prems v True t task_from_dict_reach [of a c e' c1] show ?thesis by simp
      next
        case (Inr task)
        obtain r2 c2 where l: "list_comp b ts c1 = (r2, c2)" by (cases "list_comp b ts c1")
        with Cons.prems v True t Inr Cons.IH [of c1] show ?thesis
          by (cases r2) simp_all
      qed
    qed
  qed
qed

lemma delete_comp_reach: "delete_comp ts v \<noteq> Inl Unreachable"
proof (induction ts)
  case Nil
  then show ?case by simp
next
  case (Cons a ts)
  show ?case
  proof (cases "stored_id a")
    case (Inl e)
    with stored_id_reach [of a] show ?thesis by simp
  next
    case (Inr m)
    note m = this
    show ?thesis
    proof (cases "py_int v")
      case (Inl e)
      with py_int_reach [of v] m show ?thesis by simp
    next
      case (Inr n)
      with m Cons.IH show ?thesis by (cases "delete_comp ts v") simp_all
    qed
  qed
qed

lemma clear_comp_reach: "clear_comp ts \<noteq> Inl Unreachable"
proof (induction ts)
  case Nil
  then show ?case by simp
next
  case (Cons a ts)
  show ?case
  proof (cases "py_get a ''completed'' (PBool False)")
    case (Inl e)
    with py_get_reach [of a "''completed''" "PBool False"] show ?thesis by simp
  next
    case (Inr v)
    with Cons.IH show ?thesis by (cases "clear_comp ts") simp_all
  qed
qed

lemma add_title_reach: "add_title t \<noteq> Inl Unreachable"
  by (cases t) (simp_all add: add_title_def)

lemma update_title_reach: "update_title t old \<noteq> Inl Unreachable"
  by (cases t) (simp_all add: update_title_def)

lemma add_task_reach: "fst (add_task w t d) \<noteq> Inl Unreachable"
proof (cases "add_title t")
  case (Inl e)
  with add_title_reach [of t] show ?thesis by (auto simp: add_task_def)
next
  case (Inr ttl)
  note ttl = this
  show ?thesis
  proof (cases "ttl = []")
    case True
    with ttl show ?thesis by (simp add: add_task_def)
  next
    case False
    show ?thesis
    proof (cases "load_db (medium w)")
      case (Inl e)
      with ttl False load_db_reach [of "medium w"] show ?thesis by (auto simp: add_task_def)
    next
      case (Inr db)
      then have "medium w \<noteq> Undecodable" by auto
      from add_task_succeeds [OF ttl False this, of d] show ?thesis by auto
    qed
  qed
qed

lemma list_tasks_reach: "fst (list_tasks w b) \<noteq> Inl Unreachable"
proof (cases "load_db (medium w)")
  case (Inl e)
  with load_db_reach [of "medium w"] show ?thesis by (auto simp: list_tasks_def)
next
  case (Inr db)
  from valid_db_tasks [OF load_db_valid [OF Inr]] obtain ts where ts: "db_tasks db = Inr ts" ..
  obtain r c1 where l: "list_comp b ts (clock w) = (r, c1)"
    by (cases "list_comp b ts (clock w)")
  show ?thesis
  proof (cases r)
    case (Inl e)
    with l list_comp_reach [of b ts "clock w" e c1] Inr ts show ?thesis
      by (simp add: list_tasks_def)
  next
    case (Inr tasks)
    with l \<open>load_db (medium w) = Inr db\<close> ts show ?thesis by (simp add: list_tasks_def)
  qed
qed

lemma complete_task_reach: "fst (complete_task w i) \<noteq> Inl Unreachable"
proof (cases "load_db (medium w)")
  case (Inl e)
  with load_db_reach [of "medium w"] show ?thesis by (auto simp: complete_task_def)
next
  case (Inr db)
  note db = this
  from valid_db_tasks [OF load_db_valid [OF Inr]] obtain ts where ts: "db_tasks db = Inr ts" ..
  show ?thesis
  proof (cases "locate ts i 0")
    case (Inl e)
    with locate_reach [of ts i 0] db ts show ?thesis by (auto simp: complete_task_def)
  next
    case (Inr found)
    note loc = this
    show ?thesis
    proof (cases found)
      case None
      with db ts loc show ?thesis by (simp add: complete_task_def)
    next
      case (Some p)
      obtain k t where p: "p = (k, t)" by (cases p)
      obtain r c1 where tfd: "task_from_dict t (clock w) = (r, c1)"
        by (cases "task_from_dict t (clock w)")
      show ?thesis
      proof (cases r)
        case (Inl e)
        with tfd task_from_dict_reach [of t "clock w" e c1] db ts loc Some p show ?thesis
          by (simp add: complete_task_def)
      next
        case (Inr task)
        with tfd db ts loc Some p show ?thesis
          by (simp add: complete_task_def Let_def now_iso_def)
      qed
    qed
  qed
qed

lemma update_task_reach: "fst (update_task w i t d) \<noteq> Inl Unreachable"
proof (cases "load_db (medium w)")
  case (Inl e)
  with load_db_reach [of "medium w"] show ?thesis by (auto simp: update_task_def)
next
  case (Inr db)
  note db = this
  from valid_db_tasks [OF load_db_valid [OF Inr]] obtain ts where ts: "db_tasks db = Inr ts" ..
  show ?thesis
  proof (cases "locate ts i 0")
    case (Inl e)
    with locate_reach [of ts i 0] db ts show ?thesis by (auto simp: update_task_def)
  next
    case (Inr found)
    note loc = this
    show ?thesis
    proof (cases found)
      case None
      with db ts loc show ?thesis by (simp add: update_task_def)
    next
      case (Some p)
      obtain k rec where p: "p = (k, rec)" by (cases p)
      obtain r c1 where tfd: "task_from_dict rec (clock w) = (r, c1)"
        by (cases "task_from_dict rec (clock w)")
      show ?thesis
      proof (cases r)
        case (Inl e)
        with tfd task_from_dict_reach [of rec "clock w" e c1] db ts loc Some p show ?thesis
          by (simp add: update_task_def)
      next
        case (Inr task)
        note task = this
        show ?thesis
        proof (cases "update_title t (title task)")
          case (Inl e)
          with update_title_reach [of t "title task"] tfd task db ts loc Some p show ?thesis
            by (auto simp: update_task_def)
        next
          case (Inr new_title)
          with tfd task db ts loc Some p show ?thesis
            by (simp add: update_task_def Let_def)
        qed
      qed
    qed
  qed
qed

lemma delete_task_reach: "fst (delete_task w i) \<noteq> Inl Unreachable"
proof (cases "delete_task w i")
  case (Pair r w')
  from delete_task_cases [OF Pair] show ?thesis
  proof (elim disjE exE conjE)
    fix e assume r: "r = Inl e" "w' = w"
    show ?thesis
    proof (cases "load_db (medium w)")
      case (Inl e')
      with load_db_reach [of "medium w"] show ?thesis by (auto simp: delete_task_def)
    next
      case (Inr db)
      note db = this
      from valid_db_tasks [OF load_db_valid [OF Inr]] obtain ts where ts: "db_tasks db = Inr ts" ..
      show ?thesis
      proof (cases "delete_comp ts i")
        case (Inl e')
        with delete_comp_reach [of ts i] db ts show ?thesis by (auto simp: delete_task_def)
      next
        case (Inr kept)
        show ?thesis
        proof (cases "length kept = length ts")
          case True
          with Inr db ts show ?thesis by (simp add: delete_task_def)
        next
          case False
          with Inr have "ts \<noteq> []" by auto
          from delete_comp_coerces [OF Inr this] obtain n where "py_int i = Inr n" ..
          with Inr db ts False show ?thesis by (simp add: delete_task_def Let_def)
        qed
      qed
    qed
  qed (simp add: Pair)
qed

lemma clear_completed_reach: "fst (clear_completed w) \<noteq> Inl Unreachable"
proof (cases "load_db (medium w)")
  case (Inl e)
  with load_db_reach [of "medium w"] show ?thesis by (auto simp: clear_completed_def)
next
  case (Inr db)
  from valid_db_tasks [OF load_db_valid [OF Inr]] obtain ts where ts: "db_tasks db = Inr ts" ..
  with Inr clear_comp_reach [of ts] show ?thesis
    by (cases "clear_comp ts") (auto simp: clear_completed_def)
qed

lemma never_unreachable: "fst (invoke c w) \<noteq> Inl Unreachable"
  by (cases c)
    (simp_all add: add_task_reach list_tasks_reach complete_task_reach delete_task_reach
      update_task_reach clear_completed_reach)

section \<open>Id allocation\<close>




section \<open>Loading\<close>




section \<open>Completion\<close>



section \<open>Failed invocations\<close>



section \<open>Parsing of task records\<close>




section \<open>When the document is written back\<close>

text \<open>
  C6, as amended. An invocation saves at most once; one that does not save leaves the file and
  the temporary file as they were, and a failed invocation never saves. \<^verbatim>\<open>add_task\<close>,
  \<^verbatim>\<open>list_tasks\<close>, \<^verbatim>\<open>complete_task\<close> and \<^verbatim>\<open>delete_task\<close> write the document back only if the
  invocation changes it: whenever one of them saves, the file differs from the file before.
  \<^verbatim>\<open>update_task\<close> and \<^verbatim>\<open>clear_completed\<close> save whenever they succeed, whether or not the
  document changed.
\<close>

theorem saves_only_changes_or_always:
  "invoke c w = (r, w') \<longrightarrow>
     (saves w' = saves w \<or> saves w' = saves w + 1) \<and>
     (saves w' = saves w \<longrightarrow> medium w' = medium w \<and> tmp w' = tmp w) \<and>
     ((\<exists>e. r = Inl e) \<longrightarrow> saves w' = saves w) \<and>
     (\<not> always_saves c \<and> saves w' \<noteq> saves w \<longrightarrow> medium w' \<noteq> medium w) \<and>
     (always_saves c \<and> (\<exists>v. r = Inr v) \<longrightarrow> saves w' = saves w + 1)"
proof
  assume a: "invoke c w = (r, w')"
  from invoke_saves [OF a] have 1: "saves w' = saves w \<or> saves w' = saves w + 1"
    and 2: "saves w' = saves w \<longrightarrow> medium w' = medium w \<and> tmp w' = tmp w"
    and 3: "(\<exists>e. r = Inl e) \<longrightarrow> saves w' = saves w"
    by auto
  from save_means_change [OF a]
  have 4: "\<not> always_saves c \<and> saves w' \<noteq> saves w \<longrightarrow> medium w' \<noteq> medium w"
    by blast
  from always_saves_success a
  have 5: "always_saves c \<and> (\<exists>v. r = Inr v) \<longrightarrow> saves w' = saves w + 1"
    by blast
  from 1 2 3 4 5 show "(saves w' = saves w \<or> saves w' = saves w + 1) \<and>
     (saves w' = saves w \<longrightarrow> medium w' = medium w \<and> tmp w' = tmp w) \<and>
     ((\<exists>e. r = Inl e) \<longrightarrow> saves w' = saves w) \<and>
     (\<not> always_saves c \<and> saves w' \<noteq> saves w \<longrightarrow> medium w' \<noteq> medium w) \<and>
     (always_saves c \<and> (\<exists>v. r = Inr v) \<longrightarrow> saves w' = saves w + 1)"
    by (intro conjI)
qed


text \<open>
  The theorem on a document with the one open task 1: \<^verbatim>\<open>complete_task\<close> saves and the file
  changes; \<^verbatim>\<open>clear_completed\<close> has nothing to remove and saves all the same.
\<close>

theorem saves_only_changes_or_always_witness:
  "invoke (CompleteTask (PInt 1)) (world_of (Content (document 2 [task_record 1 ''a'' False PNone]))) =
     (Inr (task_record 1 ''a'' True (PStr ''2026-01-15T14:30:00Z'')),
      (world_of (Content (document 2 [task_record 1 ''a'' True (PStr ''2026-01-15T14:30:00Z'')])))
        \<lparr>saves := 1\<rparr>) \<and>
   Content (document 2 [task_record 1 ''a'' True (PStr ''2026-01-15T14:30:00Z'')]) \<noteq>
     Content (document 2 [task_record 1 ''a'' False PNone]) \<and>
   invoke ClearCompleted (world_of (Content (document 2 [task_record 1 ''a'' False PNone]))) =
     (Inr (PDict [(''cleared'', PInt 0)]),
      (world_of (Content (document 2 [task_record 1 ''a'' False PNone])))\<lparr>saves := 1\<rparr>) \<and>
   saves ((world_of (Content (document 2 [task_record 1 ''a'' False PNone])))\<lparr>saves := 1\<rparr>) =
     saves (world_of (Content (document 2 [task_record 1 ''a'' False PNone]))) + 1"
proof -
  let ?w = "world_of (Content (document 2 [task_record 1 ''a'' False PNone]))"
  let ?w1 = "(world_of (Content (document 2
      [task_record 1 ''a'' True (PStr ''2026-01-15T14:30:00Z'')])))\<lparr>saves := 1\<rparr>"
  let ?r1 = "Inr (task_record 1 ''a'' True (PStr ''2026-01-15T14:30:00Z'')) :: error + pyval"
  let ?w2 = "(world_of (Content (document 2 [task_record 1 ''a'' False PNone])))\<lparr>saves := 1\<rparr>"
  let ?r2 = "Inr (PDict [(''cleared'', PInt 0)]) :: error + pyval"
  have h1: "invoke (CompleteTask (PInt 1)) ?w = (?r1, ?w1)"
    by (simp add: complete_task_def world_of_def document_def task_record_def validate_db_def
        db_tasks_def stored_id_def py_get_def dict_get_def task_from_dict_def py_str_def
        now_iso_def serialize_task_def save_db_def Let_def)
  have h2: "invoke ClearCompleted ?w = (?r2, ?w2)"
    by (simp add: clear_completed_def world_of_def document_def task_record_def validate_db_def
        db_tasks_def py_get_def dict_get_def save_db_def Let_def)
  have s1: "\<not> always_saves (CompleteTask (PInt 1)) \<and> saves ?w1 \<noteq> saves ?w"
    by (simp add: world_of_def)
  have s2: "always_saves ClearCompleted \<and> (\<exists>v. ?r2 = Inr v)"
    by simp
  from saves_only_changes_or_always [of "CompleteTask (PInt 1)" ?w ?r1 ?w1] h1 s1
  have "medium ?w1 \<noteq> medium ?w" by blast
  then have a: "Content (document 2 [task_record 1 ''a'' True (PStr ''2026-01-15T14:30:00Z'')]) \<noteq>
     Content (document 2 [task_record 1 ''a'' False PNone])"
    by (simp add: world_of_def)
  from saves_only_changes_or_always [of ClearCompleted ?w ?r2 ?w2] h2 s2
  have b: "saves ?w2 = saves ?w + 1" by blast
  from h1 a h2 b show ?thesis by blast
qed

text \<open>
  C6 as stated fails on both of its examples: \<^verbatim>\<open>clear_completed\<close> on a document without a
  completed task, and \<^verbatim>\<open>update_task\<close> with neither title nor due date, leave the file equal to
  what it was, and each performs a save.
\<close>

theorem unconditional_save_counterexample:
  "clear_completed \<lparr>medium = Content (PDict [(''next_id'', PInt 1), (''tasks'', PList [])]),
                    tmp = Absent, saves = 0, clock = sconst ''2026-01-15T14:30:00''\<rparr> =
     (Inr (PDict [(''cleared'', PInt 0)]),
      \<lparr>medium = Content (PDict [(''next_id'', PInt 1), (''tasks'', PList [])]),
       tmp = Absent, saves = 1, clock = sconst ''2026-01-15T14:30:00''\<rparr>) \<and>
   update_task \<lparr>medium = Content (PDict [(''next_id'', PInt 2), (''tasks'', PList
                    [PDict [(''id'', PInt 1), (''title'', PStr ''a''), (''due_date'', PNone),
                            (''completed'', PBool False),
                            (''created_at'', PStr ''2026-01-01T00:00:00Z''),
                            (''completed_at'', PNone)]])]),
                tmp = Absent, saves = 0, clock = sconst ''2026-01-15T14:30:00''\<rparr>
       (PInt 1) PNone PNone =
     (Inr (PDict [(''id'', PInt 1), (''title'', PStr ''a''), (''due_date'', PNone),
                  (''completed'', PBool False), (''created_at'', PStr ''2026-01-01T00:00:00Z''),
                  (''completed_at'', PNone)]),
      \<lparr>medium = Content (PDict [(''next_id'', PInt 2), (''tasks'', PList
                    [PDict [(''id'', PInt 1), (''title'', PStr ''a''), (''due_date'', PNone),
                            (''completed'', PBool False),
                            (''created_at'', PStr ''2026-01-01T00:00:00Z''),
                            (''completed_at'', PNone)]])]),
       tmp = Absent, saves = 1, clock = sconst ''2026-01-15T14:30:00''\<rparr>)"
proof -
  have 1: "clear_completed \<lparr>medium = Content (PDict [(''next_id'', PInt 1), (''tasks'', PList [])]),
                    tmp = Absent, saves = 0, clock = sconst ''2026-01-15T14:30:00''\<rparr> =
     (Inr (PDict [(''cleared'', PInt 0)]),
      \<lparr>medium = Content (PDict [(''next_id'', PInt 1), (''tasks'', PList [])]),
       tmp = Absent, saves = 1, clock = sconst ''2026-01-15T14:30:00''\<rparr>)"
    by (simp add: clear_completed_def validate_db_def db_tasks_def save_db_def Let_def)
  have 2: "update_task \<lparr>medium = Content (PDict [(''next_id'', PInt 2), (''tasks'', PList
                    [PDict [(''id'', PInt 1), (''title'', PStr ''a''), (''due_date'', PNone),
                            (''completed'', PBool False),
                            (''created_at'', PStr ''2026-01-01T00:00:00Z''),
                            (''completed_at'', PNone)]])]),
                tmp = Absent, saves = 0, clock = sconst ''2026-01-15T14:30:00''\<rparr>
       (PInt 1) PNone PNone =
     (Inr (PDict [(''id'', PInt 1), (''title'', PStr ''a''), (''due_date'', PNone),
                  (''completed'', PBool False), (''created_at'', PStr ''2026-01-01T00:00:00Z''),
                  (''completed_at'', PNone)]),
      \<lparr>medium = Content (PDict [(''next_id'', PInt 2), (''tasks'', PList
                    [PDict [(''id'', PInt 1), (''title'', PStr ''a''), (''due_date'', PNone),
                            (''completed'', PBool False),
                            (''created_at'', PStr ''2026-01-01T00:00:00Z''),
                            (''completed_at'', PNone)]])]),
       tmp = Absent, saves = 1, clock = sconst ''2026-01-15T14:30:00''\<rparr>)"
    by (simp add: update_task_def validate_db_def db_tasks_def stored_id_def py_get_def
        dict_get_def task_from_dict_def py_str_def update_title_def update_due_date_def
        serialize_task_def save_db_def Let_def)
  from 1 2 show ?thesis by (rule conjI)
qed

section \<open>Listing\<close>



section \<open>Completion flag and completion time\<close>

text \<open>
  C8. Every tool preserves the invariant that \<^verbatim>\<open>completed_at\<close> is non-null if and only if
  \<^verbatim>\<open>completed\<close> is true: when it holds of the records in the file, then after any invocation,
  and after any sequence of invocations, it holds of the records in the file and of every
  task returned. It holds on a first start. \<^verbatim>\<open>add_task\<close> creates its task with
  \<^verbatim>\<open>completed\<close> false and \<^verbatim>\<open>completed_at\<close> null; \<^verbatim>\<open>complete_task\<close>, when it changes a task, sets
  \<^verbatim>\<open>completed\<close> to true and \<^verbatim>\<open>completed_at\<close> to a timestamp together; \<^verbatim>\<open>update_task\<close> returns the
  two as the stored record has them.
\<close>

theorem completed_at_iff_completed:
  "(doc_ok (medium w) \<and> invoke c w = (r, w') \<longrightarrow>
      doc_ok (medium w') \<and> (\<forall>v. r = Inr v \<longrightarrow> result_ok v)) \<and>
   (doc_ok (medium w) \<longrightarrow>
      doc_ok (medium (snd (invoke_all cs w))) \<and>
      (\<forall>v. Inr v \<in> set (fst (invoke_all cs w)) \<longrightarrow> result_ok v)) \<and>
   doc_ok Absent \<and>
   (add_task w t d = (Inr v, w') \<longrightarrow>
      py_get v ''completed'' PNone = Inr (PBool False) \<and>
      py_get v ''completed_at'' PNone = Inr PNone) \<and>
   (complete_task w i = (Inr v, w') \<and> saves w' \<noteq> saves w \<longrightarrow>
      py_get v ''completed'' PNone = Inr (PBool True) \<and>
      (\<exists>s. py_get v ''completed_at'' PNone = Inr (PStr s))) \<and>
   (update_task w i t d = (Inr v, w') \<and> load_db (medium w) = Inr db \<and> db_tasks db = Inr ts \<and>
    py_int i = Inr n \<and> first_with_id ts n k \<longrightarrow>
      py_get v ''completed'' PNone = Inr (PBool (stored_completed (ts ! k))) \<and>
      py_get v ''completed_at'' PNone = py_get (ts ! k) ''completed_at'' PNone)"
proof -
  have 1: "doc_ok (medium w) \<and> invoke c w = (r, w') \<longrightarrow>
      doc_ok (medium w') \<and> (\<forall>v. r = Inr v \<longrightarrow> result_ok v)"
    using invoke_ok by blast
  have 2: "doc_ok (medium w) \<longrightarrow>
      doc_ok (medium (snd (invoke_all cs w))) \<and>
      (\<forall>v. Inr v \<in> set (fst (invoke_all cs w)) \<longrightarrow> result_ok v)"
  proof
    assume ok: "doc_ok (medium w)"
    obtain rs w2 where run: "invoke_all cs w = (rs, w2)" by (cases "invoke_all cs w")
    from invoke_all_ok [OF ok run] run
    show "doc_ok (medium (snd (invoke_all cs w))) \<and>
      (\<forall>v. Inr v \<in> set (fst (invoke_all cs w)) \<longrightarrow> result_ok v)" by simp
  qed
  have 3: "doc_ok Absent"
    by (simp add: doc_ok_def default_db_def db_tasks_def)
  have 4: "add_task w t d = (Inr v, w') \<longrightarrow>
      py_get v ''completed'' PNone = Inr (PBool False) \<and>
      py_get v ''completed_at'' PNone = Inr PNone"
    using add_task_open by blast
  have 5: "complete_task w i = (Inr v, w') \<and> saves w' \<noteq> saves w \<longrightarrow>
      py_get v ''completed'' PNone = Inr (PBool True) \<and>
      (\<exists>s. py_get v ''completed_at'' PNone = Inr (PStr s))"
    using complete_task_stamps by blast
  have 6: "update_task w i t d = (Inr v, w') \<and> load_db (medium w) = Inr db \<and>
    db_tasks db = Inr ts \<and> py_int i = Inr n \<and> first_with_id ts n k \<longrightarrow>
      py_get v ''completed'' PNone = Inr (PBool (stored_completed (ts ! k))) \<and>
      py_get v ''completed_at'' PNone = py_get (ts ! k) ''completed_at'' PNone"
    using update_task_keeps by blast
  from 1 2 3 4 5 6 show ?thesis by (intro conjI)
qed


text \<open>
  The theorem on a document with the one open task 1, which satisfies the invariant:
  completing the task and renaming it keep the invariant, and so does a sequence of four
  invocations from a first start.
\<close>

theorem completed_at_iff_completed_witness:
  "doc_ok (Content (document 2 [task_record 1 ''a'' False PNone])) \<and>
   invoke (CompleteTask (PInt 1)) (world_of (Content (document 2 [task_record 1 ''a'' False PNone]))) =
     (Inr (task_record 1 ''a'' True (PStr ''2026-01-15T14:30:00Z'')),
      (world_of (Content (document 2 [task_record 1 ''a'' True (PStr ''2026-01-15T14:30:00Z'')])))
        \<lparr>saves := 1\<rparr>) \<and>
   doc_ok (Content (document 2 [task_record 1 ''a'' True (PStr ''2026-01-15T14:30:00Z'')])) \<and>
   result_ok (task_record 1 ''a'' True (PStr ''2026-01-15T14:30:00Z'')) \<and>
   doc_ok (medium (snd (invoke_all
      [AddTask (PStr ''a'') PNone, CompleteTask (PInt 1), ListTasks True, ClearCompleted]
      (world_of Absent)))) \<and>
   py_get (task_record 1 ''a'' True (PStr ''2026-01-15T14:30:00Z'')) ''completed'' PNone =
     Inr (PBool True) \<and>
   (\<exists>s. py_get (task_record 1 ''a'' True (PStr ''2026-01-15T14:30:00Z'')) ''completed_at'' PNone =
     Inr (PStr s)) \<and>
   update_task (world_of (Content (document 2 [task_record 1 ''a'' False PNone]))) (PInt 1)
      (PStr ''b'') PNone =
     (Inr (task_record 1 ''b'' False PNone),
      (world_of (Content (document 2 [task_record 1 ''b'' False PNone])))\<lparr>saves := 1\<rparr>) \<and>
   py_get (task_record 1 ''b'' False PNone) ''completed_at'' PNone =
     py_get (task_record 1 ''a'' False PNone) ''completed_at'' PNone"
proof -
  let ?ts = "[task_record 1 ''a'' False PNone]"
  let ?w = "world_of (Content (document 2 ?ts))"
  let ?db = "[(''next_id'', PInt 2), (''tasks'', PList ?ts)]"
  let ?r1 = "task_record 1 ''a'' True (PStr ''2026-01-15T14:30:00Z'')"
  let ?w1 = "(world_of (Content (document 2 [?r1])))\<lparr>saves := 1\<rparr>"
  let ?r2 = "task_record 1 ''b'' False PNone"
  let ?w2 = "(world_of (Content (document 2 [?r2])))\<lparr>saves := 1\<rparr>"
  have ld: "load_db (medium ?w) = Inr ?db" "db_tasks ?db = Inr ?ts"
    by (simp_all add: world_of_def document_def validate_db_def db_tasks_def)
  have ok: "doc_ok (medium ?w)"
    using doc_ok_loaded [OF ld] by (simp add: record_ok_def task_record_def dict_get_def)
  have c: "complete_task ?w (PInt 1) = (Inr ?r1, ?w1)"
    by (simp add: complete_task_def world_of_def document_def task_record_def validate_db_def
        db_tasks_def stored_id_def py_get_def dict_get_def task_from_dict_def py_str_def
        now_iso_def serialize_task_def save_db_def Let_def)
  have u: "update_task ?w (PInt 1) (PStr ''b'') PNone = (Inr ?r2, ?w2)"
    by (simp add: update_task_def world_of_def document_def task_record_def validate_db_def
        db_tasks_def stored_id_def py_get_def dict_get_def task_from_dict_def py_str_def
        update_title_def update_due_date_def py_strip_def is_space_def
        serialize_task_def save_db_def Let_def)
  have first: "py_int (PInt 1) = Inr 1 \<and> first_with_id ?ts 1 0"
    by (simp add: first_with_id_def task_record_def stored_id_def py_get_def dict_get_def)
  have sv: "saves ?w1 \<noteq> saves ?w" by (simp add: world_of_def)
  have m: "\<And>x. medium (world_of x) = x"
    by (simp add: world_of_def)
  note inst1 = completed_at_iff_completed [where w = ?w and c = "CompleteTask (PInt 1)" and
      r = "Inr ?r1" and w' = ?w1 and i = "PInt 1" and v = ?r1]
  from inst1 ok c have "doc_ok (medium ?w1) \<and> (\<forall>v. Inr ?r1 = Inr v \<longrightarrow> result_ok v)"
    by simp
  then have 1: "doc_ok (Content (document 2 [?r1]))" "result_ok ?r1"
    by (simp_all add: m)
  from inst1 c sv have 2: "py_get ?r1 ''completed'' PNone = Inr (PBool True) \<and>
      (\<exists>s. py_get ?r1 ''completed_at'' PNone = Inr (PStr s))"
    by blast
  note inst2 = completed_at_iff_completed [where w = "world_of Absent" and
      cs = "[AddTask (PStr ''a'') PNone, CompleteTask (PInt 1), ListTasks True, ClearCompleted]"]
  from inst2 have "doc_ok Absent" by blast
  with inst2 have 3: "doc_ok (medium (snd (invoke_all
      [AddTask (PStr ''a'') PNone, CompleteTask (PInt 1), ListTasks True, ClearCompleted]
      (world_of Absent))))"
    by (simp add: m)
  note inst3 = completed_at_iff_completed [where w = ?w and i = "PInt 1" and t = "PStr ''b''" and
      d = PNone and v = ?r2 and w' = ?w2 and db = ?db and ts = ?ts and n = 1 and k = 0]
  from inst3 u ld first have "py_get ?r2 ''completed_at'' PNone = py_get (?ts ! 0) ''completed_at'' PNone"
    by blast
  then have 4: "py_get ?r2 ''completed_at'' PNone = py_get (task_record 1 ''a'' False PNone) ''completed_at'' PNone"
    by simp
  from ok have 0: "doc_ok (Content (document 2 ?ts))" by (simp add: m)
  from c have c': "invoke (CompleteTask (PInt 1)) ?w = (Inr ?r1, ?w1)" by simp
  from 0 c' 1 3 2 u 4 show ?thesis by (intro conjI) blast+
qed

section \<open>Deletion\<close>




section \<open>Coercion of the task id\<close>



end
